theory Spec2Isabelle
  imports Main "HOL-Library.Sublist"
begin

section \<open>Data model\<close>

text \<open>
  The knowledge graph of the qualitative-research server: entities with a name, a type and
  a list of observations; directed typed relations between entity names; the graph is the
  pair of both lists, kept in the order of insertion. JavaScript strings are modelled as
  \<open>string\<close>, one \<open>char\<close> per code unit, for the code units below 256.
\<close>

record Entity =
  name :: string
  entityType :: string
  observations :: "string list"

record Relation =
  from_r :: string
  to_r :: string
  relationType :: string

record KnowledgeGraph =
  entities :: "Entity list"
  relations :: "Relation list"

text \<open>The argument and result items of \<open>addObservations\<close> and \<open>deleteObservations\<close>.\<close>

record ObservationInput =
  entityName :: string
  contents :: "string list"

record ObservationResult =
  resEntityName :: string
  addedObservations :: "string list"

record ObservationDeletion =
  delEntityName :: string
  delObservations :: "string list"

text \<open>
  The source throws plain \<open>Error\<close> objects; the two kinds of message are kept apart, each
  with the offending value of the message.
\<close>

datatype error = ValidationError string | NotFoundError string

section \<open>Enumerations and validators\<close>

definition VALID_ENTITY_TYPES :: "string list" where
  "VALID_ENTITY_TYPES =
    [''project'', ''participant'', ''interview'', ''observation'', ''document'', ''code'',
     ''codeGroup'', ''memo'', ''theme'', ''quote'', ''literature'', ''researchQuestion'',
     ''finding'', ''status'', ''priority'']"

definition VALID_RELATION_TYPES :: "string list" where
  "VALID_RELATION_TYPES =
    [''participated_in'', ''codes'', ''contains'', ''supports'', ''contradicts'', ''answers'',
     ''cites'', ''followed_by'', ''related_to'', ''reflects_on'', ''compares'',
     ''conducted_by'', ''transcribed_by'', ''part_of'', ''derived_from'', ''collected_on'',
     ''analyzes'', ''triangulates_with'', ''has_status'', ''has_priority'', ''precedes'']"

definition VALID_STATUS_VALUES :: "string list" where
  "VALID_STATUS_VALUES =
    [''planning'', ''data_collection'', ''analysis'', ''writing'', ''complete'',
     ''scheduled'', ''conducted'', ''transcribed'', ''coded'', ''analyzed'',
     ''planned'', ''documented'',
     ''initial'', ''revised'', ''final'',
     ''emerging'', ''developing'', ''established'',
     ''preliminary'', ''draft'',
     ''active'', ''in_progress'', ''not_started'']"

definition VALID_PRIORITY_VALUES :: "string list" where
  "VALID_PRIORITY_VALUES = [''high'', ''low'']"

definition validateEntityType :: "string \<Rightarrow> bool" where
  "validateEntityType t = (t \<in> set VALID_ENTITY_TYPES)"

definition validateRelationType :: "string \<Rightarrow> bool" where
  "validateRelationType t = (t \<in> set VALID_RELATION_TYPES)"

section \<open>The store file\<close>

text \<open>
  What \<open>fs.readFile\<close> followed by \<open>JSON.parse\<close> can meet: no file, a file that cannot be
  read, a file whose text is not JSON, or the text of a saved graph.
\<close>

datatype file_state = Absent | Unreadable | Corrupt | Stored KnowledgeGraph

definition empty_graph :: KnowledgeGraph where
  "empty_graph = \<lparr>entities = [], relations = []\<rparr>"

text \<open>
  \<open>loadGraph\<close> wraps both calls in one \<open>try\<close>; its \<open>catch\<close> looks at nothing of the error
  and returns the empty graph, so the function never throws.
\<close>

fun loadGraph :: "file_state \<Rightarrow> error + KnowledgeGraph" where
  "loadGraph (Stored g) = Inr g"
| "loadGraph Absent = Inr empty_graph"
| "loadGraph Unreadable = Inr empty_graph"
| "loadGraph Corrupt = Inr empty_graph"

text \<open>The graph an operation works on (\<open>const graph = await this.loadGraph()\<close>).\<close>

definition loaded :: "file_state \<Rightarrow> KnowledgeGraph" where
  "loaded st = (case loadGraph st of Inr g \<Rightarrow> g | Inl e \<Rightarrow> empty_graph)"

text \<open>\<open>saveGraph\<close> overwrites the whole file with the serialised graph.\<close>

definition saveGraph :: "KnowledgeGraph \<Rightarrow> file_state" where
  "saveGraph g = Stored g"

section \<open>Mutation operations\<close>

text \<open>
  Every operation takes the store file and returns its result (or the error thrown) with
  the store file afterwards. A \<open>throw\<close> leaves the method before \<open>saveGraph\<close> is reached.
\<close>

definition entityNames :: "KnowledgeGraph \<Rightarrow> string list" where
  "entityNames g = map name (entities g)"

definition firstInvalidEntityType :: "Entity list \<Rightarrow> string option" where
  "firstInvalidEntityType batch =
     (case filter (\<lambda>e. \<not> validateEntityType (entityType e)) batch of
        [] \<Rightarrow> None | e # _ \<Rightarrow> Some (entityType e))"

definition createEntities :: "Entity list \<Rightarrow> file_state \<Rightarrow> (error + Entity list) \<times> file_state" where
  "createEntities batch st =
     (let graph = loaded st;
          existingEntityNames = set (entityNames graph)
      in case firstInvalidEntityType batch of
           Some t \<Rightarrow> (Inl (ValidationError t), st)
         | None \<Rightarrow>
             (let newEntities = filter (\<lambda>e. name e \<notin> existingEntityNames) batch
              in (Inr newEntities,
                  saveGraph (graph\<lparr>entities := entities graph @ newEntities\<rparr>))))"

text \<open>The \<open>forEach\<close> of \<open>createRelations\<close>: the first failing check of the first failing
  relation is the error thrown.\<close>

fun checkRelations :: "string set \<Rightarrow> Relation list \<Rightarrow> error option" where
  "checkRelations existing [] = None"
| "checkRelations existing (r # rs) =
     (if from_r r \<notin> existing then Some (NotFoundError (from_r r))
      else if to_r r \<notin> existing then Some (NotFoundError (to_r r))
      else if \<not> validateRelationType (relationType r) then Some (ValidationError (relationType r))
      else checkRelations existing rs)"

text \<open>The key of the duplicate filter, \<open>`${r.from}:${r.to}:${r.relationType}`\<close>.\<close>

definition relationKey :: "Relation \<Rightarrow> string" where
  "relationKey r = from_r r @ '':'' @ to_r r @ '':'' @ relationType r"

definition createRelations :: "Relation list \<Rightarrow> file_state \<Rightarrow> (error + Relation list) \<times> file_state" where
  "createRelations batch st =
     (let graph = loaded st;
          existingEntityNames = set (entityNames graph)
      in case checkRelations existingEntityNames batch of
           Some e \<Rightarrow> (Inl e, st)
         | None \<Rightarrow>
             (let existingRelations = set (map relationKey (relations graph));
                  newRelations = filter (\<lambda>r. relationKey r \<notin> existingRelations) batch
              in (Inr newRelations,
                  saveGraph (graph\<lparr>relations := relations graph @ newRelations\<rparr>))))"

text \<open>
  \<open>graph.entities.find(e => e.name === n)\<close> yields the first entity of that name, and the
  \<open>push\<close> on its observations changes that entity in place.
\<close>

fun findEntity :: "string \<Rightarrow> Entity list \<Rightarrow> Entity option" where
  "findEntity n [] = None"
| "findEntity n (e # es) = (if name e = n then Some e else findEntity n es)"

fun updateFirst :: "string \<Rightarrow> (Entity \<Rightarrow> Entity) \<Rightarrow> Entity list \<Rightarrow> Entity list" where
  "updateFirst n f [] = []"
| "updateFirst n f (e # es) = (if name e = n then f e # es else e # updateFirst n f es)"

text \<open>The \<open>for\<close> loop of \<open>addObservations\<close> over the in-memory graph, with the results
  collected so far.\<close>

fun addObservationsLoop ::
  "ObservationInput list \<Rightarrow> Entity list \<Rightarrow> ObservationResult list
    \<Rightarrow> error + (Entity list \<times> ObservationResult list)" where
  "addObservationsLoop [] es results = Inr (es, results)"
| "addObservationsLoop (observation # rest) es results =
     (case findEntity (entityName observation) es of
        None \<Rightarrow> Inl (NotFoundError (entityName observation))
      | Some entity \<Rightarrow>
          (let newObservations = filter (\<lambda>ob. ob \<notin> set (observations entity)) (contents observation)
           in addObservationsLoop rest
                (updateFirst (entityName observation)
                   (\<lambda>e. e\<lparr>observations := observations e @ newObservations\<rparr>) es)
                (results @ [\<lparr>resEntityName = entityName observation,
                              addedObservations = newObservations\<rparr>])))"

definition addObservations ::
  "ObservationInput list \<Rightarrow> file_state \<Rightarrow> (error + ObservationResult list) \<times> file_state" where
  "addObservations batch st =
     (let graph = loaded st
      in case addObservationsLoop batch (entities graph) [] of
           Inl e \<Rightarrow> (Inl e, st)
         | Inr (es, results) \<Rightarrow> (Inr results, saveGraph (graph\<lparr>entities := es\<rparr>)))"

definition deleteEntities :: "string list \<Rightarrow> file_state \<Rightarrow> file_state" where
  "deleteEntities entityNamesToDelete st =
     (let graph = loaded st
      in saveGraph
           \<lparr>entities = filter (\<lambda>e. name e \<notin> set entityNamesToDelete) (entities graph),
            relations = filter (\<lambda>r. from_r r \<notin> set entityNamesToDelete
                                      \<and> to_r r \<notin> set entityNamesToDelete) (relations graph)\<rparr>)"

fun deleteObservationsLoop :: "ObservationDeletion list \<Rightarrow> Entity list \<Rightarrow> Entity list" where
  "deleteObservationsLoop [] es = es"
| "deleteObservationsLoop (deletion # rest) es =
     deleteObservationsLoop rest
       (updateFirst (delEntityName deletion)
          (\<lambda>e. e\<lparr>observations :=
                   filter (\<lambda>ob. ob \<notin> set (delObservations deletion)) (observations e)\<rparr>) es)"

definition deleteObservations :: "ObservationDeletion list \<Rightarrow> file_state \<Rightarrow> file_state" where
  "deleteObservations deletions st =
     (let graph = loaded st
      in saveGraph (graph\<lparr>entities := deleteObservationsLoop deletions (entities graph)\<rparr>))"

definition deleteRelations :: "Relation list \<Rightarrow> file_state \<Rightarrow> file_state" where
  "deleteRelations batch st =
     (let graph = loaded st
      in saveGraph (graph\<lparr>relations :=
           filter (\<lambda>r. \<not> (\<exists>toDelete \<in> set batch.
                     from_r r = from_r toDelete \<and> to_r r = to_r toDelete
                     \<and> relationType r = relationType toDelete)) (relations graph)\<rparr>))"

section \<open>Status and priority\<close>

text \<open>
  The two \<open>for\<close> loops of \<open>initializeStatusAndPriority\<close>, one per kind (\<open>status\<close>,
  \<open>priority\<close>): a value gets its entity \<open>kind:value\<close> unless an entity of that name and of
  type \<open>kind\<close> is already in the list, which covers the ones pushed earlier in the loop.
\<close>

fun seedValues :: "string \<Rightarrow> string list \<Rightarrow> Entity list \<Rightarrow> Entity list" where
  "seedValues kind [] es = es"
| "seedValues kind (v # vs) es =
     seedValues kind vs
       (if \<exists>e \<in> set es. name e = kind @ '':'' @ v \<and> entityType e = kind then es
        else es @ [\<lparr>name = kind @ '':'' @ v, entityType = kind,
                     observations = [''A '' @ v @ '' '' @ kind @ '' value'']\<rparr>])"

definition initializeStatusAndPriority :: "file_state \<Rightarrow> file_state" where
  "initializeStatusAndPriority st =
     (let graph = loaded st
      in saveGraph (graph\<lparr>entities :=
           seedValues ''priority'' VALID_PRIORITY_VALUES
             (seedValues ''status'' VALID_STATUS_VALUES (entities graph))\<rparr>))"

text \<open>\<open>String.prototype.split\<close> with a one-character separator: the pieces between the
  separators, at least one piece.\<close>

fun split_on :: "char \<Rightarrow> string \<Rightarrow> string list" where
  "split_on sep [] = [[]]"
| "split_on sep (c # cs) =
     (if c = sep then [] # split_on sep cs
      else (case split_on sep cs of t # ts \<Rightarrow> (c # t) # ts | [] \<Rightarrow> [[c]]))"

text \<open>What a getter returns: \<open>null\<close>, \<open>undefined\<close> (index 1 of a split with one piece) or a
  string.\<close>

datatype js_value = JNull | JUndefined | JString string

definition secondPiece :: "string \<Rightarrow> js_value" where
  "secondPiece s =
     (case split_on CHR '':'' s of
        _ # v # _ \<Rightarrow> JString v
      | _ \<Rightarrow> JUndefined)"

definition getEntityStatus :: "string \<Rightarrow> file_state \<Rightarrow> js_value" where
  "getEntityStatus n st =
     (let graph = loaded st
      in case find (\<lambda>r. from_r r = n \<and> relationType r = ''has_status'') (relations graph) of
           Some statusRelation \<Rightarrow> secondPiece (to_r statusRelation)
         | None \<Rightarrow> JNull)"

definition getEntityPriority :: "string \<Rightarrow> file_state \<Rightarrow> js_value" where
  "getEntityPriority n st =
     (let graph = loaded st
      in case find (\<lambda>r. from_r r = n \<and> relationType r = ''has_priority'') (relations graph) of
           Some priorityRelation \<Rightarrow> secondPiece (to_r priorityRelation)
         | None \<Rightarrow> JNull)"

definition setEntityStatus :: "string \<Rightarrow> string \<Rightarrow> file_state \<Rightarrow> (error + unit) \<times> file_state" where
  "setEntityStatus n statusValue st =
     (if statusValue \<notin> set VALID_STATUS_VALUES then (Inl (ValidationError statusValue), st)
      else
        (let graph = loaded st
         in (Inr (),
             saveGraph (graph\<lparr>relations :=
               filter (\<lambda>r. \<not> (from_r r = n \<and> relationType r = ''has_status'')) (relations graph)
               @ [\<lparr>from_r = n, to_r = ''status:'' @ statusValue,
                    relationType = ''has_status''\<rparr>]\<rparr>))))"

definition setEntityPriority :: "string \<Rightarrow> string \<Rightarrow> file_state \<Rightarrow> (error + unit) \<times> file_state" where
  "setEntityPriority n priorityValue st =
     (if priorityValue \<notin> set VALID_PRIORITY_VALUES then (Inl (ValidationError priorityValue), st)
      else
        (let graph = loaded st
         in (Inr (),
             saveGraph (graph\<lparr>relations :=
               filter (\<lambda>r. \<not> (from_r r = n \<and> relationType r = ''has_priority'')) (relations graph)
               @ [\<lparr>from_r = n, to_r = ''priority:'' @ priorityValue,
                    relationType = ''has_priority''\<rparr>]\<rparr>))))"

text \<open>The outgoing edges of one relation type of an entity, and a run of setter calls
  (failed calls leave the store as it is).\<close>

definition edgesOf :: "string \<Rightarrow> string \<Rightarrow> KnowledgeGraph \<Rightarrow> Relation list" where
  "edgesOf rt n g = filter (\<lambda>r. from_r r = n \<and> relationType r = rt) (relations g)"

definition setStatuses :: "(string \<times> string) list \<Rightarrow> file_state \<Rightarrow> file_state" where
  "setStatuses calls st = fold (\<lambda>(n, v) s. snd (setEntityStatus n v s)) calls st"

definition setPriorities :: "(string \<times> string) list \<Rightarrow> file_state \<Rightarrow> file_state" where
  "setPriorities calls st = fold (\<lambda>(n, v) s. snd (setEntityPriority n v s)) calls st"

section \<open>Search\<close>

text \<open>
  The string methods \<open>searchNodes\<close> calls, on strings of code units below 256 (the values
  of \<open>char\<close>). White space for \<open>/\s/\<close> and \<open>trim\<close> is, in that range, tab, line feed,
  vertical tab, form feed, carriage return, space and the no-break space \<open>U+00A0\<close>.
  \<open>toLowerCase\<close> maps \<open>A\<close>..\<open>Z\<close> to \<open>a\<close>..\<open>z\<close> and the capital letters \<open>U+00C0\<close>..\<open>U+00DE\<close>
  (without the multiplication sign \<open>U+00D7\<close>) to the letters 32 places on, and leaves
  every other code unit below 256 as it is. \<open>split(/\s+/)\<close> cuts at every maximal run of
  white space, so that a string that starts or ends with white space yields an empty first
  or last piece and the empty string yields one empty piece; \<open>includes\<close> is the test for a
  contiguous sublist.
\<close>

definition isSpace :: "char \<Rightarrow> bool" where
  "isSpace c =
     (c \<in> set [CHR '' '', CHR 0x09, CHR 0x0A, CHR 0x0B, CHR 0x0C, CHR 0x0D, CHR 0xA0])"

definition upperCaseLetters :: string where
  "upperCaseLetters =
     ''ABCDEFGHIJKLMNOPQRSTUVWXYZ'' @
     [CHR 0xC0, CHR 0xC1, CHR 0xC2, CHR 0xC3, CHR 0xC4, CHR 0xC5, CHR 0xC6,
      CHR 0xC7, CHR 0xC8, CHR 0xC9, CHR 0xCA, CHR 0xCB, CHR 0xCC, CHR 0xCD,
      CHR 0xCE, CHR 0xCF, CHR 0xD0, CHR 0xD1, CHR 0xD2, CHR 0xD3, CHR 0xD4,
      CHR 0xD5, CHR 0xD6, CHR 0xD8, CHR 0xD9, CHR 0xDA, CHR 0xDB, CHR 0xDC,
      CHR 0xDD, CHR 0xDE]"

definition lowerCaseLetters :: string where
  "lowerCaseLetters =
     ''abcdefghijklmnopqrstuvwxyz'' @
     [CHR 0xE0, CHR 0xE1, CHR 0xE2, CHR 0xE3, CHR 0xE4, CHR 0xE5, CHR 0xE6,
      CHR 0xE7, CHR 0xE8, CHR 0xE9, CHR 0xEA, CHR 0xEB, CHR 0xEC, CHR 0xED,
      CHR 0xEE, CHR 0xEF, CHR 0xF0, CHR 0xF1, CHR 0xF2, CHR 0xF3, CHR 0xF4,
      CHR 0xF5, CHR 0xF6, CHR 0xF8, CHR 0xF9, CHR 0xFA, CHR 0xFB, CHR 0xFC,
      CHR 0xFD, CHR 0xFE]"

definition toLowerChar :: "char \<Rightarrow> char" where
  "toLowerChar c =
     (case map_of (zip upperCaseLetters lowerCaseLetters) c of Some l \<Rightarrow> l | None \<Rightarrow> c)"

definition toLowerCase :: "string \<Rightarrow> string" where
  "toLowerCase s = map toLowerChar s"

function splitWhitespace :: "string \<Rightarrow> string list" where
  "splitWhitespace [] = [[]]"
| "splitWhitespace (c # cs) =
     (if isSpace c then [] # splitWhitespace (dropWhile isSpace cs)
      else (case splitWhitespace cs of t # ts \<Rightarrow> (c # t) # ts | [] \<Rightarrow> [[c]]))"
  by pat_completeness auto
termination
  by (relation "measure length") (auto simp: less_Suc_eq_le length_dropWhile_le)

definition includes_str :: "string \<Rightarrow> string \<Rightarrow> bool" where
  "includes_str s t = sublist t s"

text \<open>The callback of \<open>terms.every\<close>: the name, then the type, then the observations.\<close>

definition matchesTerm :: "Entity \<Rightarrow> string \<Rightarrow> bool" where
  "matchesTerm entity t =
     (if includes_str (toLowerCase (name entity)) t then True
      else if includes_str (toLowerCase (entityType entity)) t then True
      else (\<exists>observation \<in> set (observations entity). includes_str (toLowerCase observation) t))"

definition matchesAllTerms :: "string list \<Rightarrow> Entity \<Rightarrow> bool" where
  "matchesAllTerms terms entity = (\<forall>t \<in> set terms. matchesTerm entity t)"

definition searchNodes :: "string \<Rightarrow> file_state \<Rightarrow> KnowledgeGraph" where
  "searchNodes query st =
     (let graph = loaded st;
          terms = splitWhitespace (toLowerCase query);
          matchingEntityNames = set (map name (filter (matchesAllTerms terms) (entities graph)))
      in \<lparr>entities = filter (\<lambda>e. name e \<in> matchingEntityNames) (entities graph),
          relations = filter (\<lambda>r. from_r r \<in> matchingEntityNames \<and> to_r r \<in> matchingEntityNames)
                        (relations graph)\<rparr>)"

definition openNodes :: "string list \<Rightarrow> file_state \<Rightarrow> KnowledgeGraph" where
  "openNodes names st =
     (let graph = loaded st
      in \<lparr>entities = filter (\<lambda>e. name e \<in> set names) (entities graph),
          relations = filter (\<lambda>r. from_r r \<in> set names \<and> to_r r \<in> set names)
                        (relations graph)\<rparr>)"

section \<open>Code co-occurrence\<close>

text \<open>\<open>entities.find(e => e.name === n && e.entityType === t)\<close>.\<close>

definition findTyped :: "string \<Rightarrow> string \<Rightarrow> Entity list \<Rightarrow> Entity option" where
  "findTyped n t es = find (\<lambda>e. name e = n \<and> entityType e = t) es"

record Occurrence =
  occCode :: Entity
  occCount :: nat
  occQuotes :: "Entity list"



text \<open>
  The \<open>Map\<close> from code names to occurrences, in insertion order: an entry that exists is
  changed in place (\<open>count++\<close>, \<open>quotes.push\<close>), a new one goes to the end.
\<close>

fun tally :: "Entity \<Rightarrow> Entity \<Rightarrow> (string \<times> Occurrence) list \<Rightarrow> (string \<times> Occurrence) list" where
  "tally otherCode quote [] =
     [(name otherCode, \<lparr>occCode = otherCode, occCount = 1, occQuotes = [quote]\<rparr>)]"
| "tally otherCode quote ((k, occurrence) # rest) =
     (if k = name otherCode
      then (k, occurrence\<lparr>occCount := occCount occurrence + 1,
                           occQuotes := occQuotes occurrence @ [quote]\<rparr>) # rest
      else (k, occurrence) # tally otherCode quote rest)"





definition isTyped :: "KnowledgeGraph \<Rightarrow> string \<Rightarrow> string \<Rightarrow> bool" where
  "isTyped g t n = (\<exists>e \<in> set (entities g). name e = n \<and> entityType e = t)"





section \<open>Chronological data\<close>

record TimelineItem =
  tlDate :: int
  tlEntity :: Entity
  tlQuotes :: "Entity list"

record Chronology =
  chProject :: Entity
  timeline :: "TimelineItem list"

text \<open>\<open>startsWith\<close> and \<open>trim\<close> of JavaScript strings.\<close>

definition startsWith :: "string \<Rightarrow> string \<Rightarrow> bool" where
  "startsWith s p = prefix p s"

definition trim :: "string \<Rightarrow> string" where
  "trim s = rev (dropWhile isSpace (rev (dropWhile isSpace s)))"

definition isDateObservation :: "string \<Rightarrow> bool" where
  "isDateObservation ob =
     (startsWith ob ''Date:'' \<or> startsWith ob ''Collected on:'' \<or> startsWith ob ''Created:'')"

text \<open>
  The date of an entity, in milliseconds since the epoch. \<open>new Date(dateString)\<close> is the
  runtime's parser and a parameter here: \<open>parseDate s\<close> is the time value, \<open>None\<close> when it is
  \<open>NaN\<close>. The string parsed is the piece between the first and the second colon of the
  observation, trimmed. An observation that \<open>find\<close> returns holds a colon, so its split has
  a second piece (lemma \<open>isDateObservation_pieces\<close>) and the last case is never taken.
\<close>

definition entityDate :: "(string \<Rightarrow> int option) \<Rightarrow> Entity \<Rightarrow> int" where
  "entityDate parseDate entity =
     (case find isDateObservation (observations entity) of
        None \<Rightarrow> 0
      | Some dateObs \<Rightarrow>
          (case split_on CHR '':'' dateObs of
             _ # piece # _ \<Rightarrow> (case parseDate (trim piece) of Some t \<Rightarrow> t | None \<Rightarrow> 0)
           | _ \<Rightarrow> 0))"

text \<open>Which entity types the first loop looks for: the data type given, if it is a
  non-empty string (\<open>if (dataType)\<close>), and else the three default types.\<close>

definition wantedType :: "string option \<Rightarrow> string \<Rightarrow> bool" where
  "wantedType dataType t =
     (case dataType of
        Some d \<Rightarrow> if d \<noteq> [] then t = d
                  else (t = ''interview'' \<or> t = ''observation'' \<or> t = ''document'')
      | None \<Rightarrow> (t = ''interview'' \<or> t = ''observation'' \<or> t = ''document''))"

fun collectData :: "string \<Rightarrow> string option \<Rightarrow> Entity list \<Rightarrow> Relation list \<Rightarrow> Entity list" where
  "collectData projectName dataType es [] = []"
| "collectData projectName dataType es (relation # rest) =
     (if relationType relation = ''part_of'' \<and> to_r relation = projectName
      then (case find (\<lambda>e. name e = from_r relation \<and> wantedType dataType (entityType e)) es of
              Some entity \<Rightarrow> entity # collectData projectName dataType es rest
            | None \<Rightarrow> collectData projectName dataType es rest)
      else collectData projectName dataType es rest)"

fun collectContained :: "string \<Rightarrow> Entity list \<Rightarrow> Relation list \<Rightarrow> Entity list" where
  "collectContained n es [] = []"
| "collectContained n es (relation # rest) =
     (if relationType relation = ''contains'' \<and> from_r relation = n
      then (case findTyped (to_r relation) ''quote'' es of
              Some quote \<Rightarrow> quote # collectContained n es rest
            | None \<Rightarrow> collectContained n es rest)
      else collectContained n es rest)"

text \<open>\<open>Array.prototype.sort\<close> with the comparator \<open>a.date - b.date\<close>: a stable sort by
  rising date.\<close>

definition getChronologicalData ::
  "(string \<Rightarrow> int option) \<Rightarrow> string \<Rightarrow> string option \<Rightarrow> file_state \<Rightarrow> error + Chronology" where
  "getChronologicalData parseDate projectName dataType st =
     (let graph = loaded st
      in case findTyped projectName ''project'' (entities graph) of
           None \<Rightarrow> Inl (NotFoundError projectName)
         | Some project \<Rightarrow>
             (let dataEntities = collectData projectName dataType (entities graph) (relations graph);
                  dataWithDates = map (\<lambda>entity. (entity, entityDate parseDate entity)) dataEntities;
                  sortedData = sort_key snd dataWithDates
              in Inr \<lparr>chProject = project,
                       timeline = map (\<lambda>(entity, date).
                         \<lparr>tlDate = date, tlEntity = entity,
                           tlQuotes = collectContained (name entity) (entities graph) (relations graph)\<rparr>)
                         sortedData\<rparr>))"

section \<open>Well-formed graphs and reachable stores\<close>

definition uniqueNames :: "KnowledgeGraph \<Rightarrow> bool" where
  "uniqueNames g = distinct (entityNames g)"

definition noDangling :: "KnowledgeGraph \<Rightarrow> bool" where
  "noDangling g =
     (\<forall>r \<in> set (relations g). from_r r \<in> set (entityNames g) \<and> to_r r \<in> set (entityNames g))"

definition wellFormed :: "KnowledgeGraph \<Rightarrow> bool" where
  "wellFormed g = (uniqueNames g \<and> noDangling g)"

text \<open>The stores reachable from the absent store file (the empty graph) through the public
  operations, whatever their arguments.\<close>

inductive reachable :: "file_state \<Rightarrow> bool" where
  start: "reachable Absent"
| createEntities: "reachable st \<Longrightarrow> reachable (snd (createEntities batch st))"
| createRelations: "reachable st \<Longrightarrow> reachable (snd (createRelations rels st))"
| addObservations: "reachable st \<Longrightarrow> reachable (snd (addObservations obs st))"
| deleteEntities: "reachable st \<Longrightarrow> reachable (deleteEntities ns st)"
| deleteObservations: "reachable st \<Longrightarrow> reachable (deleteObservations dels st)"
| deleteRelations: "reachable st \<Longrightarrow> reachable (deleteRelations rels st)"
| initializeStatusAndPriority: "reachable st \<Longrightarrow> reachable (initializeStatusAndPriority st)"
| setEntityStatus: "reachable st \<Longrightarrow> reachable (snd (setEntityStatus n v st))"
| setEntityPriority: "reachable st \<Longrightarrow> reachable (snd (setEntityPriority n v st))"

text \<open>
  Every entity that bears a reserved name \<open>status:value\<close> or \<open>priority:value\<close> of the
  enumerations has the reserved type.
\<close>

definition reservedTyped :: "KnowledgeGraph \<Rightarrow> bool" where
  "reservedTyped g =
     (\<forall>e \<in> set (entities g).
        (name e \<in> (\<lambda>v. ''status:'' @ v) ` set VALID_STATUS_VALUES \<longrightarrow> entityType e = ''status'')
        \<and> (name e \<in> (\<lambda>v. ''priority:'' @ v) ` set VALID_PRIORITY_VALUES
              \<longrightarrow> entityType e = ''priority''))"

text \<open>
  The same operations, used with three restraints: a \<open>createEntities\<close> batch names no
  entity twice, \<open>initializeStatusAndPriority\<close> runs on a graph whose reserved names have
  the reserved types, and the setters are called for an existing entity after the value's
  entity exists.
\<close>

inductive reachableGuarded :: "file_state \<Rightarrow> bool" where
  start: "reachableGuarded Absent"
| createEntities:
    "reachableGuarded st \<Longrightarrow> distinct (map name batch)
       \<Longrightarrow> reachableGuarded (snd (createEntities batch st))"
| createRelations: "reachableGuarded st \<Longrightarrow> reachableGuarded (snd (createRelations rels st))"
| addObservations: "reachableGuarded st \<Longrightarrow> reachableGuarded (snd (addObservations obs st))"
| deleteEntities: "reachableGuarded st \<Longrightarrow> reachableGuarded (deleteEntities ns st)"
| deleteObservations: "reachableGuarded st \<Longrightarrow> reachableGuarded (deleteObservations dels st)"
| deleteRelations: "reachableGuarded st \<Longrightarrow> reachableGuarded (deleteRelations rels st)"
| initializeStatusAndPriority:
    "reachableGuarded st \<Longrightarrow> reservedTyped (loaded st)
       \<Longrightarrow> reachableGuarded (initializeStatusAndPriority st)"
| setEntityStatus:
    "reachableGuarded st \<Longrightarrow> n \<in> set (entityNames (loaded st))
       \<Longrightarrow> ''status:'' @ v \<in> set (entityNames (loaded st))
       \<Longrightarrow> reachableGuarded (snd (setEntityStatus n v st))"
| setEntityPriority:
    "reachableGuarded st \<Longrightarrow> n \<in> set (entityNames (loaded st))
       \<Longrightarrow> ''priority:'' @ v \<in> set (entityNames (loaded st))
       \<Longrightarrow> reachableGuarded (snd (setEntityPriority n v st))"

section \<open>Auxiliary notions for stating the results\<close>

text \<open>Appending one returned delta to its entity, and an input item all of whose contents
  its entity already holds.\<close>

definition appendObservations :: "ObservationResult \<Rightarrow> Entity list \<Rightarrow> Entity list" where
  "appendObservations r es =
     updateFirst (resEntityName r) (\<lambda>e. e\<lparr>observations := observations e @ addedObservations r\<rparr>) es"

definition saturated :: "Entity list \<Rightarrow> ObservationInput \<Rightarrow> bool" where
  "saturated es b =
     (case findEntity (entityName b) es of
        None \<Rightarrow> False
      | Some e \<Rightarrow> set (contents b) \<subseteq> set (observations e))"

section \<open>Example graphs\<close>

definition entA :: Entity where
  "entA = \<lparr>name = ''A'', entityType = ''code'', observations = [''first'']\<rparr>"

definition entB :: Entity where
  "entB = \<lparr>name = ''B'', entityType = ''quote'', observations = [''kept'', ''as is'']\<rparr>"

definition relAB :: Relation where
  "relAB = \<lparr>from_r = ''A'', to_r = ''B'', relationType = ''related_to''\<rparr>"

definition storeAB :: file_state where
  "storeAB = Stored \<lparr>entities = [entA, entB], relations = [relAB]\<rparr>"

definition entBogus :: Entity where
  "entBogus = \<lparr>name = ''X'', entityType = ''bogus'', observations = []\<rparr>"

definition relGhost :: Relation where
  "relGhost = \<lparr>from_r = ''Ghost'', to_r = ''A'', relationType = ''related_to''\<rparr>"

definition obsA :: ObservationInput where
  "obsA = \<lparr>entityName = ''A'', contents = [''first'', ''second'', ''second'']\<rparr>"

definition obsGhost :: ObservationInput where
  "obsGhost = \<lparr>entityName = ''Ghost'', contents = [''lost'']\<rparr>"

definition entC :: Entity where
  "entC = \<lparr>name = ''C'', entityType = ''memo'', observations = []\<rparr>"

definition entA2 :: Entity where
  "entA2 = \<lparr>name = ''A'', entityType = ''theme'', observations = [''other'']\<rparr>"

definition relBA :: Relation where
  "relBA = \<lparr>from_r = ''B'', to_r = ''A'', relationType = ''codes''\<rparr>"

definition entReserved :: Entity where
  "entReserved = \<lparr>name = ''status:draft'', entityType = ''code'', observations = []\<rparr>"

definition storeSeeded :: file_state where
  "storeSeeded = initializeStatusAndPriority (snd (createEntities [entA, entB] Absent))"

definition storeWithStatus :: file_state where
  "storeWithStatus = snd (setEntityStatus ''A'' ''draft'' storeSeeded)"

definition entAlpha :: Entity where
  "entAlpha = \<lparr>name = ''Alpha'', entityType = ''code'', observations = [''mentions beta'']\<rparr>"

definition entBeta :: Entity where
  "entBeta = \<lparr>name = ''Beta'', entityType = ''code'', observations = []\<rparr>"

definition storeAlphaBeta :: file_state where
  "storeAlphaBeta = Stored \<lparr>entities = [entAlpha, entBeta],
     relations = [\<lparr>from_r = ''Alpha'', to_r = ''Beta'', relationType = ''related_to''\<rparr>,
                  \<lparr>from_r = ''Alpha'', to_r = ''Alpha'', relationType = ''related_to''\<rparr>]\<rparr>"

definition storeUnseeded :: file_state where
  "storeUnseeded = snd (setEntityStatus ''A'' ''draft'' (snd (createEntities [entA] Absent)))"





definition entP :: Entity where
  "entP = \<lparr>name = ''P'', entityType = ''project'', observations = []\<rparr>"

definition entI1 :: Entity where
  "entI1 = \<lparr>name = ''I1'', entityType = ''interview'', observations = [''Date: 2024-01-05'']\<rparr>"

definition entI2 :: Entity where
  "entI2 = \<lparr>name = ''I2'', entityType = ''interview'',
             observations = [''at the office'', ''Date: 2024-01-01'']\<rparr>"

definition entI3 :: Entity where
  "entI3 = \<lparr>name = ''I3'', entityType = ''interview'', observations = [''no date given'']\<rparr>"

definition partOf :: "string \<Rightarrow> string \<Rightarrow> Relation" where
  "partOf a b = \<lparr>from_r = a, to_r = b, relationType = ''part_of''\<rparr>"

definition storeInterviews :: file_state where
  "storeInterviews = Stored \<lparr>entities = [entP, entI1, entI2, entI3],
     relations = [partOf ''I1'' ''P'', partOf ''I2'' ''P'', partOf ''I3'' ''P'']\<rparr>"

text \<open>
  A sample of the runtime's parser on the strings of the examples: the time values that
  \<open>new Date\<close> gives for two date-only ISO strings (midnight UTC) and for one full ISO
  time stamp, and \<open>NaN\<close> for every other string of the examples, among them
  \<open>2024-01-05T10\<close>, which is no date-time string.
\<close>

definition sampleParse :: "string \<Rightarrow> int option" where
  "sampleParse s =
     (if s = ''2024-01-05'' then Some 1704412800000
      else if s = ''2024-01-01'' then Some 1704067200000
      else if s = ''2024-01-05T10:30:00Z'' then Some 1704450600000
      else None)"

definition entI4 :: Entity where
  "entI4 = \<lparr>name = ''I4'', entityType = ''interview'',
             observations = [''Created: 2024-01-05T10:30:00Z'']\<rparr>"

definition storeTimed :: file_state where
  "storeTimed = Stored \<lparr>entities = [entP, entI2, entI4],
     relations = [partOf ''I2'' ''P'', partOf ''I4'' ''P'']\<rparr>"

definition storeColons :: file_state where
  "storeColons = Stored
     \<lparr>entities = [\<lparr>name = ''a:b'', entityType = ''code'', observations = []\<rparr>,
                  \<lparr>name = ''c'', entityType = ''quote'', observations = []\<rparr>,
                  \<lparr>name = ''a'', entityType = ''code'', observations = []\<rparr>,
                  \<lparr>name = ''b:c'', entityType = ''quote'', observations = []\<rparr>],
      relations = [\<lparr>from_r = ''a:b'', to_r = ''c'', relationType = ''codes''\<rparr>]\<rparr>"

definition relColliding :: Relation where
  "relColliding = \<lparr>from_r = ''a'', to_r = ''b:c'', relationType = ''codes''\<rparr>"

section \<open>Basic facts about the store\<close>

lemma loaded_saveGraph [simp]: "loaded (saveGraph g) = g"
  by (simp add: loaded_def saveGraph_def)

lemma loaded_Stored [simp]: "loaded (Stored g) = g"
  by (simp add: loaded_def)

lemma loadGraph_total: "\<exists>g. loadGraph st = Inr g"
  by (cases st) simp_all

section \<open>Deleting entities\<close>

lemma deleteEntities_entities:
  "entities (loaded (deleteEntities ns st)) = filter (\<lambda>e. name e \<notin> set ns) (entities (loaded st))"
  by (simp add: deleteEntities_def Let_def)

lemma deleteEntities_relations:
  "relations (loaded (deleteEntities ns st)) =
     filter (\<lambda>r. from_r r \<notin> set ns \<and> to_r r \<notin> set ns) (relations (loaded st))"
  by (simp add: deleteEntities_def Let_def)

lemma filter_unknown_name:
  assumes "n \<notin> name ` set es"
  shows "filter (\<lambda>e. name e \<noteq> n \<and> name e \<notin> S) es = filter (\<lambda>e. name e \<notin> S) es"
  using assms by (induction es) auto

lemma filter_unknown_endpoint:
  assumes "\<forall>r \<in> set rs. from_r r \<noteq> n \<and> to_r r \<noteq> n"
  shows "filter (\<lambda>r. (from_r r \<noteq> n \<and> from_r r \<notin> S) \<and> to_r r \<noteq> n \<and> to_r r \<notin> S) rs
           = filter (\<lambda>r. from_r r \<notin> S \<and> to_r r \<notin> S) rs"
  using assms by (induction rs) auto

text \<open>
  Claim C3, as amended. \<open>deleteEntities\<close> is total (it returns a store, never an error). Afterwards the
  entities are exactly the former ones whose name is not in the list, in their former order
  and as the same records (observations included); the relations are exactly the former
  ones with neither endpoint in the list. A name that matches no entity removes no entity,
  and changes nothing at all when no relation mentions it either.
\<close>

theorem deleteEntities_cascade:
  "entities (loaded (deleteEntities ns st)) = filter (\<lambda>e. name e \<notin> set ns) (entities (loaded st))
   \<and> set (entities (loaded (deleteEntities ns st)))
        = {e \<in> set (entities (loaded st)). name e \<notin> set ns}
   \<and> relations (loaded (deleteEntities ns st))
        = filter (\<lambda>r. from_r r \<notin> set ns \<and> to_r r \<notin> set ns) (relations (loaded st))
   \<and> set (relations (loaded (deleteEntities ns st)))
        = {r \<in> set (relations (loaded st)). \<not> (from_r r \<in> set ns \<or> to_r r \<in> set ns)}
   \<and> (n \<notin> set (entityNames (loaded st)) \<longrightarrow>
        entities (loaded (deleteEntities (n # ns) st)) = entities (loaded (deleteEntities ns st)))
   \<and> (n \<notin> set (entityNames (loaded st))
        \<and> (\<forall>r \<in> set (relations (loaded st)). from_r r \<noteq> n \<and> to_r r \<noteq> n) \<longrightarrow>
        deleteEntities (n # ns) st = deleteEntities ns st)"
proof -
  have unknown: "deleteEntities (n # ns) st = deleteEntities ns st"
    if "n \<notin> set (entityNames (loaded st))"
      and "\<forall>r \<in> set (relations (loaded st)). from_r r \<noteq> n \<and> to_r r \<noteq> n"
    using that filter_unknown_name [of n "entities (loaded st)" "set ns"]
      filter_unknown_endpoint [of "relations (loaded st)" n "set ns"]
    by (simp add: deleteEntities_def Let_def entityNames_def)
  have ents: "entities (loaded (deleteEntities (n # ns) st)) = entities (loaded (deleteEntities ns st))"
    if "n \<notin> set (entityNames (loaded st))"
    using that filter_unknown_name [of n "entities (loaded st)" "set ns"]
    by (simp add: deleteEntities_entities entityNames_def)
  show ?thesis
    using unknown ents
    by (auto simp: deleteEntities_entities deleteEntities_relations)
qed

theorem deleteEntities_cascade_witness:
  "''Ghost'' \<notin> set (entityNames (loaded storeAB))
   \<and> ''Ghost'' \<notin> set (map from_r (relations (loaded storeAB)))
   \<and> ''Ghost'' \<notin> set (map to_r (relations (loaded storeAB)))
   \<and> deleteEntities [''Ghost'', ''A''] storeAB = deleteEntities [''A''] storeAB
   \<and> entities (loaded (deleteEntities [''A''] storeAB)) = [entB]
   \<and> relations (loaded (deleteEntities [''A''] storeAB)) = []"
  using deleteEntities_cascade [of "[''A'']" storeAB "''Ghost''"]
  by (simp add: storeAB_def entityNames_def entA_def entB_def relAB_def)

section \<open>The loop of \<open>addObservations\<close>\<close>


lemma updateFirst_names:
  assumes "\<And>e. name (f e) = name e"
  shows "map name (updateFirst n f es) = map name es"
  using assms by (induction es) auto

lemma updateFirst_name_set:
  assumes "\<And>e. name (f e) = name e"
  shows "name ` set (updateFirst n f es) = name ` set es"
  using updateFirst_names [of f n es, OF assms] by (metis list.set_map)

lemma findEntity_None_iff: "findEntity n es = None \<longleftrightarrow> n \<notin> name ` set es"
  by (induction es) auto

lemma findEntity_Some_name: "findEntity n es = Some e \<Longrightarrow> name e = n \<and> e \<in> set es"
  by (induction es) (auto split: if_splits)

lemma findEntity_updateFirst:
  assumes "\<And>e. name (f e) = name e"
  shows "findEntity n (updateFirst m f es) = (if n = m then map_option f (findEntity n es) else findEntity n es)"
  using assms by (induction es) auto

lemma updateFirst_id:
  assumes "\<And>e. f e = e"
  shows "updateFirst n f es = es"
  using assms by (induction es) auto

lemma addObservationsLoop_append:
  "addObservationsLoop (xs @ ys) es res =
     (case addObservationsLoop xs es res of
        Inl e \<Rightarrow> Inl e
      | Inr (es', res') \<Rightarrow> addObservationsLoop ys es' res')"
  by (induction xs arbitrary: es res) (auto split: option.splits simp: Let_def)

lemma addObservationsLoop_error_iff:
  "(\<exists>e. addObservationsLoop batch es res = Inl e)
     \<longleftrightarrow> (\<exists>b \<in> set batch. entityName b \<notin> name ` set es)"
proof (induction batch arbitrary: es res)
  case Nil
  then show ?case by simp
next
  case (Cons b batch)
  show ?case
  proof (cases "findEntity (entityName b) es")
    case None
    then show ?thesis using findEntity_None_iff [of "entityName b" es] by auto
  next
    case (Some ent)
    then have "entityName b \<in> name ` set es"
      using findEntity_None_iff [of "entityName b" es] by auto
    then show ?thesis
      using Some Cons.IH by (simp add: Let_def updateFirst_name_set)
  qed
qed

lemma addObservationsLoop_error_kind:
  "addObservationsLoop batch es res = Inl e
     \<Longrightarrow> \<exists>b \<in> set batch. e = NotFoundError (entityName b) \<and> entityName b \<notin> name ` set es"
proof (induction batch arbitrary: es res)
  case Nil
  then show ?case by simp
next
  case (Cons b batch)
  show ?case
  proof (cases "findEntity (entityName b) es")
    case None
    then show ?thesis using Cons.prems findEntity_None_iff [of "entityName b" es] by auto
  next
    case (Some ent)
    define es1 where "es1 = updateFirst (entityName b)
        (\<lambda>e. e\<lparr>observations := observations e @
            filter (\<lambda>ob. ob \<notin> set (observations ent)) (contents b)\<rparr>) es"
    have "\<exists>res1. addObservationsLoop batch es1 res1 = Inl e"
      using Cons.prems Some by (auto simp add: Let_def es1_def)
    then obtain res1 where "addObservationsLoop batch es1 res1 = Inl e" ..
    from Cons.IH [OF this]
    have "\<exists>b \<in> set batch. e = NotFoundError (entityName b) \<and> entityName b \<notin> name ` set es1" .
    moreover have "name ` set es1 = name ` set es"
      unfolding es1_def by (rule updateFirst_name_set) simp
    ultimately show ?thesis by auto
  qed
qed

lemma addObservationsLoop_acc:
  "addObservationsLoop batch es res =
     (case addObservationsLoop batch es [] of
        Inl e \<Rightarrow> Inl e
      | Inr (es', new) \<Rightarrow> Inr (es', res @ new))"
proof (induction batch arbitrary: es res)
  case Nil
  then show ?case by simp
next
  case (Cons b batch)
  show ?case
  proof (cases "findEntity (entityName b) es")
    case None
    then show ?thesis by simp
  next
    case (Some ent)
    define added where "added = filter (\<lambda>ob. ob \<notin> set (observations ent)) (contents b)"
    define es1 where "es1 = updateFirst (entityName b) (\<lambda>e. e\<lparr>observations := observations e @ added\<rparr>) es"
    define r where "r = \<lparr>resEntityName = entityName b, addedObservations = added\<rparr>"
    have a: "addObservationsLoop (b # batch) es res = addObservationsLoop batch es1 (res @ [r])"
      using Some by (simp add: Let_def added_def es1_def r_def)
    have b: "addObservationsLoop (b # batch) es [] = addObservationsLoop batch es1 [r]"
      using Some by (simp add: Let_def added_def es1_def r_def)
    show ?thesis
      unfolding a b
      by (subst Cons.IH [of es1 "res @ [r]"], subst Cons.IH [of es1 "[r]"])
         (simp split: sum.splits)
  qed
qed


lemma addObservationsLoop_names:
  "addObservationsLoop batch es [] = Inr (es', results)
     \<Longrightarrow> map resEntityName results = map entityName batch"
proof (induction batch arbitrary: es results)
  case Nil
  then show ?case by simp
next
  case (Cons b batch)
  from Cons.prems obtain ent where f: "findEntity (entityName b) es = Some ent"
    by (auto split: option.splits)
  define added where "added = filter (\<lambda>ob. ob \<notin> set (observations ent)) (contents b)"
  define es1 where "es1 = updateFirst (entityName b) (\<lambda>e. e\<lparr>observations := observations e @ added\<rparr>) es"
  define r where "r = \<lparr>resEntityName = entityName b, addedObservations = added\<rparr>"
  have "addObservationsLoop batch es1 [r] = Inr (es', results)"
    using Cons.prems f by (simp add: Let_def added_def es1_def r_def)
  then obtain new where n: "addObservationsLoop batch es1 [] = Inr (es', new)" "results = [r] @ new"
    by (subst (asm) addObservationsLoop_acc) (auto split: sum.splits)
  from Cons.IH [OF n(1)] show ?case using n(2) by (simp add: r_def)
qed

lemma addObservationsLoop_fold:
  "addObservationsLoop batch es [] = Inr (es', results)
     \<Longrightarrow> es' = fold appendObservations results es"
proof (induction batch arbitrary: es results)
  case Nil
  then show ?case by simp
next
  case (Cons b batch)
  from Cons.prems obtain ent where f: "findEntity (entityName b) es = Some ent"
    by (auto split: option.splits)
  define added where "added = filter (\<lambda>ob. ob \<notin> set (observations ent)) (contents b)"
  define es1 where "es1 = updateFirst (entityName b) (\<lambda>e. e\<lparr>observations := observations e @ added\<rparr>) es"
  define r where "r = \<lparr>resEntityName = entityName b, addedObservations = added\<rparr>"
  have "addObservationsLoop batch es1 [r] = Inr (es', results)"
    using Cons.prems f by (simp add: Let_def added_def es1_def r_def)
  then obtain new where n: "addObservationsLoop batch es1 [] = Inr (es', new)" "results = [r] @ new"
    by (subst (asm) addObservationsLoop_acc) (auto split: sum.splits)
  have "es1 = appendObservations r es"
    by (simp add: es1_def appendObservations_def r_def)
  with Cons.IH [OF n(1)] show ?case using n(2) by simp
qed

lemma addObservationsLoop_index:
  assumes ok: "addObservationsLoop batch es [] = Inr (es', results)" and i: "i < length batch"
  shows "\<exists>es_i res_i ent.
           addObservationsLoop (take i batch) es [] = Inr (es_i, res_i)
           \<and> findEntity (entityName (batch ! i)) es_i = Some ent
           \<and> results ! i = \<lparr>resEntityName = entityName (batch ! i),
                addedObservations = filter (\<lambda>ob. ob \<notin> set (observations ent)) (contents (batch ! i))\<rparr>"
proof -
  have split: "batch = take i batch @ (batch ! i # drop (Suc i) batch)"
    using i by (simp add: id_take_nth_drop)
  have "addObservationsLoop (take i batch @ (batch ! i # drop (Suc i) batch)) es [] = Inr (es', results)"
    using ok split by simp
  then obtain es_i res_i where
    pre: "addObservationsLoop (take i batch) es [] = Inr (es_i, res_i)" and
    post: "addObservationsLoop (batch ! i # drop (Suc i) batch) es_i res_i = Inr (es', results)"
    by (auto simp: addObservationsLoop_append split: sum.splits)
  from post obtain ent where f: "findEntity (entityName (batch ! i)) es_i = Some ent"
    by (auto split: option.splits)
  define r where "r = \<lparr>resEntityName = entityName (batch ! i),
       addedObservations = filter (\<lambda>ob. ob \<notin> set (observations ent)) (contents (batch ! i))\<rparr>"
  from post f obtain es1 where "addObservationsLoop (drop (Suc i) batch) es1 (res_i @ [r]) = Inr (es', results)"
    by (auto simp: Let_def r_def)
  then obtain new where res: "results = (res_i @ [r]) @ new"
    by (subst (asm) addObservationsLoop_acc) (auto split: sum.splits)
  have "length res_i = i"
    using addObservationsLoop_names [OF pre] i
    by (metis length_map length_take min.absorb2 less_imp_le_nat)
  then have "results ! i = r" using res by (simp add: nth_append)
  with pre f show ?thesis unfolding r_def by blast
qed

lemma saturated_step:
  assumes "saturated es b"
  shows "saturated (updateFirst n (\<lambda>e. e\<lparr>observations := observations e @ new\<rparr>) es) b"
  using assms
  by (auto simp: saturated_def findEntity_updateFirst split: option.splits)

lemma saturated_mono:
  "addObservationsLoop batch es res = Inr (es', res') \<Longrightarrow> saturated es b \<Longrightarrow> saturated es' b"
proof (induction batch arbitrary: es res)
  case Nil
  then show ?case by simp
next
  case (Cons a batch)
  from Cons.prems(1) obtain ent where f: "findEntity (entityName a) es = Some ent"
    by (auto split: option.splits)
  show ?case
    using Cons.prems f Cons.IH saturated_step [OF Cons.prems(2)]
    by (auto simp: Let_def)
qed

lemma addObservationsLoop_saturates:
  "addObservationsLoop batch es res = Inr (es', res') \<Longrightarrow> \<forall>b \<in> set batch. saturated es' b"
proof (induction batch arbitrary: es res)
  case Nil
  then show ?case by simp
next
  case (Cons a batch)
  from Cons.prems(1) obtain ent where f: "findEntity (entityName a) es = Some ent"
    by (auto split: option.splits)
  define added where "added = filter (\<lambda>ob. ob \<notin> set (observations ent)) (contents a)"
  define es1 where "es1 = updateFirst (entityName a) (\<lambda>e. e\<lparr>observations := observations e @ added\<rparr>) es"
  have step: "addObservationsLoop batch es1
        (res @ [\<lparr>resEntityName = entityName a, addedObservations = added\<rparr>]) = Inr (es', res')"
    using Cons.prems f by (simp add: Let_def added_def es1_def)
  have "saturated es1 a"
    using f by (auto simp: saturated_def es1_def added_def findEntity_updateFirst)
  then have "saturated es' a" using saturated_mono [OF step] by simp
  with Cons.IH [OF step] show ?case by simp
qed

lemma addObservationsLoop_saturated:
  "\<forall>b \<in> set batch. saturated es b
     \<Longrightarrow> addObservationsLoop batch es res
           = Inr (es, res @ map (\<lambda>b. \<lparr>resEntityName = entityName b, addedObservations = []\<rparr>) batch)"
proof (induction batch arbitrary: res)
  case Nil
  then show ?case by simp
next
  case (Cons a batch)
  from Cons.prems obtain ent where f: "findEntity (entityName a) es = Some ent"
    and sub: "set (contents a) \<subseteq> set (observations ent)"
    by (auto simp: saturated_def split: option.splits)
  have none: "filter (\<lambda>ob. ob \<notin> set (observations ent)) (contents a) = []"
    using sub by (auto simp: filter_empty_conv)
  have same: "updateFirst (entityName a) (\<lambda>e. e) es = es"
    by (rule updateFirst_id) simp
  show ?case
    using Cons.IH [of "res @ [\<lparr>resEntityName = entityName a, addedObservations = []\<rparr>]"] Cons.prems f
    by (simp add: Let_def none same)
qed

section \<open>Creating entities and relations, adding observations\<close>


lemma firstInvalidEntityType_None:
  "firstInvalidEntityType batch = None \<longleftrightarrow> (\<forall>e \<in> set batch. validateEntityType (entityType e))"
proof -
  have "firstInvalidEntityType batch = None
          \<longleftrightarrow> filter (\<lambda>e. \<not> validateEntityType (entityType e)) batch = []"
    by (simp add: firstInvalidEntityType_def split: list.splits)
  then show ?thesis by (simp add: filter_empty_conv)
qed

lemma firstInvalidEntityType_Some:
  "firstInvalidEntityType batch = Some t
     \<Longrightarrow> \<not> validateEntityType t \<and> t \<in> entityType ` set batch"
proof -
  assume a: "firstInvalidEntityType batch = Some t"
  then obtain e rest where f: "filter (\<lambda>e. \<not> validateEntityType (entityType e)) batch = e # rest"
    and t: "t = entityType e"
    by (auto simp: firstInvalidEntityType_def split: list.splits)
  have "e \<in> set (filter (\<lambda>e. \<not> validateEntityType (entityType e)) batch)"
    using f by simp
  then show ?thesis using t by auto
qed

lemma createEntities_error:
  "fst (createEntities batch st) = Inl err
     \<Longrightarrow> snd (createEntities batch st) = st
         \<and> (\<exists>t. err = ValidationError t \<and> \<not> validateEntityType t \<and> t \<in> entityType ` set batch)"
  using firstInvalidEntityType_Some [of batch]
  by (auto simp: createEntities_def Let_def split: option.splits)

lemma createEntities_rejects:
  "\<exists>e \<in> set batch. \<not> validateEntityType (entityType e)
     \<Longrightarrow> \<exists>t. createEntities batch st = (Inl (ValidationError t), st)"
  using firstInvalidEntityType_None [of batch]
  by (cases "firstInvalidEntityType batch") (auto simp: createEntities_def Let_def)

lemma createEntities_ok:
  assumes "fst (createEntities batch st) = Inr created"
  shows "created = filter (\<lambda>e. name e \<notin> set (entityNames (loaded st))) batch"
    and "loaded (snd (createEntities batch st))
           = (loaded st)\<lparr>entities := entities (loaded st) @ created\<rparr>"
    and "createEntities batch (snd (createEntities batch st))
           = (Inr [], snd (createEntities batch st))"
proof -
  have v: "firstInvalidEntityType batch = None"
    using assms by (auto simp: createEntities_def Let_def split: option.splits)
  show c: "created = filter (\<lambda>e. name e \<notin> set (entityNames (loaded st))) batch"
    using assms v by (simp add: createEntities_def Let_def)
  show l: "loaded (snd (createEntities batch st))
           = (loaded st)\<lparr>entities := entities (loaded st) @ created\<rparr>"
    using v c by (simp add: createEntities_def Let_def)
  have s: "snd (createEntities batch st)
             = Stored ((loaded st)\<lparr>entities := entities (loaded st) @ created\<rparr>)"
    using v c by (simp add: createEntities_def Let_def saveGraph_def)
  have none: "filter (\<lambda>e. name e \<notin> set (entityNames
                 ((loaded st)\<lparr>entities := entities (loaded st) @ created\<rparr>))) batch = []"
    unfolding c by (auto simp: filter_empty_conv entityNames_def)
  show "createEntities batch (snd (createEntities batch st))
           = (Inr [], snd (createEntities batch st))"
    unfolding s using v none
    by (simp add: createEntities_def Let_def saveGraph_def)
qed

lemma checkRelations_None:
  "checkRelations existing batch = None
     \<longleftrightarrow> (\<forall>r \<in> set batch. from_r r \<in> existing \<and> to_r r \<in> existing
                                 \<and> validateRelationType (relationType r))"
  by (induction batch) auto

lemma checkRelations_Some:
  "checkRelations existing batch = Some err
     \<Longrightarrow> \<exists>r \<in> set batch.
           (err = NotFoundError (from_r r) \<and> from_r r \<notin> existing)
         \<or> (err = NotFoundError (to_r r) \<and> to_r r \<notin> existing)
         \<or> (err = ValidationError (relationType r) \<and> \<not> validateRelationType (relationType r))"
  by (induction batch) (auto split: if_splits)

lemma createRelations_error:
  "fst (createRelations batch st) = Inl err
     \<Longrightarrow> snd (createRelations batch st) = st
         \<and> (\<exists>r \<in> set batch.
               (err = NotFoundError (from_r r) \<and> from_r r \<notin> set (entityNames (loaded st)))
             \<or> (err = NotFoundError (to_r r) \<and> to_r r \<notin> set (entityNames (loaded st)))
             \<or> (err = ValidationError (relationType r) \<and> \<not> validateRelationType (relationType r)))"
  using checkRelations_Some [of "set (entityNames (loaded st))" batch err]
  by (auto simp: createRelations_def Let_def split: option.splits)

lemma createRelations_rejects:
  assumes "\<exists>r \<in> set batch. from_r r \<notin> set (entityNames (loaded st))
              \<or> to_r r \<notin> set (entityNames (loaded st))
              \<or> \<not> validateRelationType (relationType r)"
  shows "\<exists>err. createRelations batch st = (Inl err, st)"
proof (cases "checkRelations (set (entityNames (loaded st))) batch")
  case None
  then show ?thesis using assms checkRelations_None [of "set (entityNames (loaded st))" batch] by auto
next
  case (Some err)
  then show ?thesis by (simp add: createRelations_def Let_def)
qed

lemma createRelations_ok:
  assumes "fst (createRelations batch st) = Inr created"
  shows "created = filter (\<lambda>r. relationKey r \<notin> relationKey ` set (relations (loaded st))) batch"
    and "set created \<inter> set (relations (loaded st)) = {}"
    and "loaded (snd (createRelations batch st))
           = (loaded st)\<lparr>relations := relations (loaded st) @ created\<rparr>"
    and "createRelations batch (snd (createRelations batch st))
           = (Inr [], snd (createRelations batch st))"
proof -
  have v: "checkRelations (set (entityNames (loaded st))) batch = None"
    using assms by (auto simp: createRelations_def Let_def split: option.splits)
  show c: "created = filter (\<lambda>r. relationKey r \<notin> relationKey ` set (relations (loaded st))) batch"
    using assms v by (simp add: createRelations_def Let_def)
  show "set created \<inter> set (relations (loaded st)) = {}"
    unfolding c by auto
  show "loaded (snd (createRelations batch st))
           = (loaded st)\<lparr>relations := relations (loaded st) @ created\<rparr>"
    using v c by (simp add: createRelations_def Let_def)
  have s: "snd (createRelations batch st)
             = Stored ((loaded st)\<lparr>relations := relations (loaded st) @ created\<rparr>)"
    using v c by (simp add: createRelations_def Let_def saveGraph_def)
  have none: "filter (\<lambda>r. relationKey r \<notin> relationKey ` set (relations (loaded st))
                          \<and> relationKey r \<notin> relationKey ` set created) batch = []"
    unfolding c by (auto simp: filter_empty_conv)
  show "createRelations batch (snd (createRelations batch st))
           = (Inr [], snd (createRelations batch st))"
    unfolding s using v none
    by (simp add: createRelations_def Let_def saveGraph_def entityNames_def)
qed

lemma addObservations_error:
  "fst (addObservations batch st) = Inl err
     \<Longrightarrow> snd (addObservations batch st) = st
         \<and> (\<exists>b \<in> set batch. err = NotFoundError (entityName b)
                \<and> entityName b \<notin> set (entityNames (loaded st)))"
  using addObservationsLoop_error_kind [of batch "entities (loaded st)" "[]" err]
  by (auto simp: addObservations_def Let_def entityNames_def split: sum.splits)

lemma addObservations_rejects:
  assumes "\<exists>b \<in> set batch. entityName b \<notin> set (entityNames (loaded st))"
  shows "\<exists>n. addObservations batch st = (Inl (NotFoundError n), st)"
proof -
  have "\<exists>e. addObservationsLoop batch (entities (loaded st)) [] = Inl e"
    using assms addObservationsLoop_error_iff [of batch "entities (loaded st)" "[]"]
    by (simp add: entityNames_def)
  then obtain e where e: "addObservationsLoop batch (entities (loaded st)) [] = Inl e" ..
  from addObservationsLoop_error_kind [OF e] obtain n where "e = NotFoundError n" by auto
  with e show ?thesis by (simp add: addObservations_def Let_def)
qed

lemma addObservations_loop:
  "fst (addObservations batch st) = Inr results
     \<Longrightarrow> \<exists>es'. addObservationsLoop batch (entities (loaded st)) [] = Inr (es', results)
             \<and> snd (addObservations batch st) = Stored ((loaded st)\<lparr>entities := es'\<rparr>)"
  by (auto simp: addObservations_def Let_def saveGraph_def split: sum.splits)

lemma addObservations_ok:
  assumes "fst (addObservations batch st) = Inr results"
  shows "map resEntityName results = map entityName batch"
    and "loaded (snd (addObservations batch st))
           = (loaded st)\<lparr>entities := fold appendObservations results (entities (loaded st))\<rparr>"
    and "addObservations batch (snd (addObservations batch st))
           = (Inr (map (\<lambda>b. \<lparr>resEntityName = entityName b, addedObservations = []\<rparr>) batch),
              snd (addObservations batch st))"
proof -
  from addObservations_loop [OF assms] obtain es' where
    l: "addObservationsLoop batch (entities (loaded st)) [] = Inr (es', results)" and
    s: "snd (addObservations batch st) = Stored ((loaded st)\<lparr>entities := es'\<rparr>)" by blast
  show "map resEntityName results = map entityName batch"
    by (rule addObservationsLoop_names [OF l])
  show "loaded (snd (addObservations batch st))
           = (loaded st)\<lparr>entities := fold appendObservations results (entities (loaded st))\<rparr>"
    using addObservationsLoop_fold [OF l] s by simp
  have "\<forall>b \<in> set batch. saturated es' b"
    by (rule addObservationsLoop_saturates [OF l])
  from addObservationsLoop_saturated [OF this, of "[]"]
  show "addObservations batch (snd (addObservations batch st))
           = (Inr (map (\<lambda>b. \<lparr>resEntityName = entityName b, addedObservations = []\<rparr>) batch),
              snd (addObservations batch st))"
    unfolding s by (simp add: addObservations_def Let_def saveGraph_def)
qed

lemma addObservations_index:
  assumes ok: "fst (addObservations batch st) = Inr results" and i: "i < length batch"
  shows "\<exists>ent. findEntity (entityName (batch ! i))
                  (entities (loaded (snd (addObservations (take i batch) st)))) = Some ent
           \<and> results ! i = \<lparr>resEntityName = entityName (batch ! i),
                addedObservations =
                  filter (\<lambda>ob. ob \<notin> set (observations ent)) (contents (batch ! i))\<rparr>"
proof -
  from addObservations_loop [OF ok] obtain es' where
    l: "addObservationsLoop batch (entities (loaded st)) [] = Inr (es', results)" by blast
  from addObservationsLoop_index [OF l i] obtain es_i res_i ent where
    pre: "addObservationsLoop (take i batch) (entities (loaded st)) [] = Inr (es_i, res_i)" and
    f: "findEntity (entityName (batch ! i)) es_i = Some ent" and
    r: "results ! i = \<lparr>resEntityName = entityName (batch ! i),
          addedObservations = filter (\<lambda>ob. ob \<notin> set (observations ent)) (contents (batch ! i))\<rparr>"
    by blast
  have "entities (loaded (snd (addObservations (take i batch) st))) = es_i"
    using pre by (simp add: addObservations_def Let_def)
  with f r show ?thesis by simp
qed

section \<open>Rejected batches\<close>


text \<open>
  Claim C4. When \<open>createEntities\<close>, \<open>createRelations\<close> or \<open>addObservations\<close> throws, the
  store file is the one from before the call. \<open>createEntities\<close> throws a validation error
  as soon as one entity type of the batch is outside the enumeration; \<open>createRelations\<close>
  throws as soon as one relation has a missing endpoint or a type outside the enumeration,
  with a not-found or a validation error; \<open>addObservations\<close> throws a not-found error as
  soon as one item, wherever in the batch, names a missing entity.
\<close>

theorem batch_rejected_atomically:
  "((\<exists>e \<in> set ents. \<not> validateEntityType (entityType e)) \<longrightarrow>
      (\<exists>t. createEntities ents st = (Inl (ValidationError t), st)))
   \<and> (fst (createEntities ents st) = Inl errE \<longrightarrow>
        snd (createEntities ents st) = st
        \<and> (\<exists>t. errE = ValidationError t \<and> \<not> validateEntityType t \<and> t \<in> entityType ` set ents))
   \<and> ((\<exists>r \<in> set rels. from_r r \<notin> set (entityNames (loaded st))
                         \<or> to_r r \<notin> set (entityNames (loaded st))
                         \<or> \<not> validateRelationType (relationType r)) \<longrightarrow>
        (\<exists>err. createRelations rels st = (Inl err, st)))
   \<and> (fst (createRelations rels st) = Inl errR \<longrightarrow>
        snd (createRelations rels st) = st
        \<and> (\<exists>r \<in> set rels.
              (errR = NotFoundError (from_r r) \<and> from_r r \<notin> set (entityNames (loaded st)))
            \<or> (errR = NotFoundError (to_r r) \<and> to_r r \<notin> set (entityNames (loaded st)))
            \<or> (errR = ValidationError (relationType r)
                 \<and> \<not> validateRelationType (relationType r))))
   \<and> ((\<exists>b \<in> set obs. entityName b \<notin> set (entityNames (loaded st))) \<longrightarrow>
        (\<exists>n. addObservations obs st = (Inl (NotFoundError n), st)))
   \<and> (fst (addObservations obs st) = Inl errO \<longrightarrow>
        snd (addObservations obs st) = st
        \<and> (\<exists>b \<in> set obs. errO = NotFoundError (entityName b)
               \<and> entityName b \<notin> set (entityNames (loaded st))))"
  using createEntities_rejects [of ents st] createEntities_error [of ents st errE]
    createRelations_rejects [of rels st] createRelations_error [of rels st errR]
    addObservations_rejects [of obs st] addObservations_error [of obs st errO]
  by blast

lemma validateEntityType_bogus: "\<not> validateEntityType ''bogus''"
  by (simp add: validateEntityType_def VALID_ENTITY_TYPES_def)

theorem batch_rejected_atomically_witness:
  "createEntities [entB, entBogus] storeAB = (Inl (ValidationError ''bogus''), storeAB)
   \<and> createRelations [relAB, relGhost] storeAB = (Inl (NotFoundError ''Ghost''), storeAB)
   \<and> addObservations [obsA, obsGhost] storeAB = (Inl (NotFoundError ''Ghost''), storeAB)"
proof -
  have e: "\<exists>e \<in> set [entB, entBogus]. \<not> validateEntityType (entityType e)"
    by (simp add: entBogus_def validateEntityType_bogus)
  have r: "\<exists>r \<in> set [relAB, relGhost]. from_r r \<notin> set (entityNames (loaded storeAB))
                         \<or> to_r r \<notin> set (entityNames (loaded storeAB))
                         \<or> \<not> validateRelationType (relationType r)"
    by (simp add: relGhost_def storeAB_def entityNames_def entA_def entB_def)
  have b: "\<exists>b \<in> set [obsA, obsGhost]. entityName b \<notin> set (entityNames (loaded storeAB))"
    by (simp add: obsGhost_def storeAB_def entityNames_def entA_def entB_def)
  note t = batch_rejected_atomically [of "[entB, entBogus]" storeAB _ "[relAB, relGhost]" _
      "[obsA, obsGhost]"]
  from t e obtain t1 where 1: "createEntities [entB, entBogus] storeAB = (Inl (ValidationError t1), storeAB)"
    by blast
  from t r obtain e2 where 2: "createRelations [relAB, relGhost] storeAB = (Inl e2, storeAB)"
    by blast
  from t b obtain n3 where 3: "addObservations [obsA, obsGhost] storeAB = (Inl (NotFoundError n3), storeAB)"
    by blast
  have "fst (createEntities [entB, entBogus] storeAB) = Inl (ValidationError ''bogus'')"
    by (simp add: createEntities_def firstInvalidEntityType_def entB_def entBogus_def
        validateEntityType_def VALID_ENTITY_TYPES_def Let_def)
  moreover have "fst (createRelations [relAB, relGhost] storeAB) = Inl (NotFoundError ''Ghost'')"
    by (simp add: createRelations_def relAB_def relGhost_def storeAB_def entityNames_def
        entA_def entB_def validateRelationType_def VALID_RELATION_TYPES_def Let_def)
  moreover have "fst (addObservations [obsA, obsGhost] storeAB) = Inl (NotFoundError ''Ghost'')"
    by (simp add: addObservations_def obsA_def obsGhost_def storeAB_def entA_def entB_def Let_def)
  ultimately show ?thesis using 1 2 3 by simp
qed

text \<open>
  The duplicate filter of \<open>createRelations\<close> compares the joined keys. Keys tell triples
  apart as long as no source name and no relation type holds a colon; then the filter
  drops exactly the relations that are present.
\<close>

lemma first_separator:
  "sep \<notin> set a \<Longrightarrow> sep \<notin> set a' \<Longrightarrow> a @ sep # b = a' @ sep # b' \<Longrightarrow> a = a' \<and> b = b'"
proof (induction a arbitrary: a')
  case Nil
  then show ?case by (cases a') auto
next
  case (Cons x a)
  then show ?case by (cases a') auto
qed

lemma last_separator:
  assumes "sep \<notin> set b" and "sep \<notin> set b'" and "a @ sep # b = a' @ sep # b'"
  shows "a = a' \<and> b = b'"
proof -
  have "rev b @ sep # rev a = rev b' @ sep # rev a'"
    using arg_cong [OF assms(3), of rev] by simp
  from first_separator [OF _ _ this] assms(1,2) show ?thesis by simp
qed

lemma relationKey_inj:
  assumes "CHR '':'' \<notin> set (from_r r)" and "CHR '':'' \<notin> set (from_r r')"
    and "CHR '':'' \<notin> set (relationType r)" and "CHR '':'' \<notin> set (relationType r')"
    and "relationKey r = relationKey r'"
  shows "r = r'"
proof -
  have "from_r r @ CHR '':'' # (to_r r @ CHR '':'' # relationType r)
      = from_r r' @ CHR '':'' # (to_r r' @ CHR '':'' # relationType r')"
    using assms(5) by (simp add: relationKey_def)
  from first_separator [OF assms(1,2) this]
  have f: "from_r r = from_r r'"
    and rest: "to_r r @ CHR '':'' # relationType r = to_r r' @ CHR '':'' # relationType r'"
    by simp_all
  from last_separator [OF assms(3,4) rest] f show ?thesis by (simp add: Relation.equality)
qed

lemma createRelations_exact:
  assumes ok: "fst (createRelations batch st) = Inr created"
    and nc: "\<forall>r \<in> set batch \<union> set (relations (loaded st)).
               CHR '':'' \<notin> set (from_r r) \<and> CHR '':'' \<notin> set (relationType r)"
  shows "created = filter (\<lambda>r. r \<notin> set (relations (loaded st))) batch"
proof -
  have "(relationKey r \<notin> relationKey ` set (relations (loaded st)))
      = (r \<notin> set (relations (loaded st)))" if "r \<in> set batch" for r
  proof -
    have "relationKey r \<in> relationKey ` set (relations (loaded st))
        \<Longrightarrow> r \<in> set (relations (loaded st))"
    proof -
      assume "relationKey r \<in> relationKey ` set (relations (loaded st))"
      then obtain r' where r': "r' \<in> set (relations (loaded st))" "relationKey r = relationKey r'"
        by auto
      have "r = r'" using relationKey_inj [of r r'] nc that r' by simp
      then show ?thesis using r'(1) by simp
    qed
    then show ?thesis by auto
  qed
  then have "filter (\<lambda>r. relationKey r \<notin> relationKey ` set (relations (loaded st))) batch
      = filter (\<lambda>r. r \<notin> set (relations (loaded st))) batch"
    by (intro filter_cong) simp_all
  then show ?thesis using createRelations_ok(1) [OF ok] by simp
qed

text \<open>
  What the three operations do when they succeed. \<open>createEntities\<close> returns the entities
  of the batch whose name is not yet in the graph, in input order, and appends exactly
  them; \<open>createRelations\<close> returns the relations of the batch that pass its duplicate
  filter (no relation already present is among them), in input order, and appends exactly
  them; \<open>addObservations\<close> returns one result per item, in input order, holding the
  contents that the entity did not hold when the item was reached, and the graph afterwards
  is the graph before with exactly the returned strings appended. Nothing present is
  changed, and the same call on the resulting store returns empty deltas and leaves the
  store as it is. The duplicate filter of \<open>createRelations\<close> works on the joined key
  \<open>from:to:type\<close>; where no source name and no relation type holds a colon, it passes
  exactly the relations that are not yet present.
\<close>

lemma create_operations_delta:
  "(fst (createEntities ents st) = Inr created \<longrightarrow>
      created = filter (\<lambda>e. name e \<notin> set (entityNames (loaded st))) ents
      \<and> loaded (snd (createEntities ents st))
          = (loaded st)\<lparr>entities := entities (loaded st) @ created\<rparr>
      \<and> createEntities ents (snd (createEntities ents st))
          = (Inr [], snd (createEntities ents st)))
   \<and> (fst (createRelations rels st) = Inr createdR \<longrightarrow>
      createdR = filter (\<lambda>r. relationKey r \<notin> relationKey ` set (relations (loaded st))) rels
      \<and> set createdR \<inter> set (relations (loaded st)) = {}
      \<and> ((\<forall>r \<in> set rels \<union> set (relations (loaded st)).
              CHR '':'' \<notin> set (from_r r) \<and> CHR '':'' \<notin> set (relationType r)) \<longrightarrow>
           createdR = filter (\<lambda>r. r \<notin> set (relations (loaded st))) rels)
      \<and> loaded (snd (createRelations rels st))
          = (loaded st)\<lparr>relations := relations (loaded st) @ createdR\<rparr>
      \<and> createRelations rels (snd (createRelations rels st))
          = (Inr [], snd (createRelations rels st)))
   \<and> (fst (addObservations obs st) = Inr results \<longrightarrow>
      map resEntityName results = map entityName obs
      \<and> (\<forall>i < length obs. \<exists>ent.
            findEntity (entityName (obs ! i))
              (entities (loaded (snd (addObservations (take i obs) st)))) = Some ent
            \<and> addedObservations (results ! i)
                = filter (\<lambda>ob. ob \<notin> set (observations ent)) (contents (obs ! i)))
      \<and> loaded (snd (addObservations obs st))
          = (loaded st)\<lparr>entities := fold appendObservations results (entities (loaded st))\<rparr>
      \<and> addObservations obs (snd (addObservations obs st))
          = (Inr (map (\<lambda>b. \<lparr>resEntityName = entityName b, addedObservations = []\<rparr>) obs),
             snd (addObservations obs st)))"
proof (intro conjI impI allI)
  assume a: "fst (createEntities ents st) = Inr created"
  show "created = filter (\<lambda>e. name e \<notin> set (entityNames (loaded st))) ents"
    by (rule createEntities_ok(1) [OF a])
  show "loaded (snd (createEntities ents st))
          = (loaded st)\<lparr>entities := entities (loaded st) @ created\<rparr>"
    by (rule createEntities_ok(2) [OF a])
  show "createEntities ents (snd (createEntities ents st))
          = (Inr [], snd (createEntities ents st))"
    by (rule createEntities_ok(3) [OF a])
next
  assume a: "fst (createRelations rels st) = Inr createdR"
  show "createdR = filter (\<lambda>r. relationKey r \<notin> relationKey ` set (relations (loaded st))) rels"
    by (rule createRelations_ok(1) [OF a])
  show "set createdR \<inter> set (relations (loaded st)) = {}"
    by (rule createRelations_ok(2) [OF a])
  show "createdR = filter (\<lambda>r. r \<notin> set (relations (loaded st))) rels"
    if "\<forall>r \<in> set rels \<union> set (relations (loaded st)).
          CHR '':'' \<notin> set (from_r r) \<and> CHR '':'' \<notin> set (relationType r)"
    by (rule createRelations_exact [OF a that])
  show "loaded (snd (createRelations rels st))
          = (loaded st)\<lparr>relations := relations (loaded st) @ createdR\<rparr>"
    by (rule createRelations_ok(3) [OF a])
  show "createRelations rels (snd (createRelations rels st))
          = (Inr [], snd (createRelations rels st))"
    by (rule createRelations_ok(4) [OF a])
next
  assume a: "fst (addObservations obs st) = Inr results"
  show "map resEntityName results = map entityName obs"
    by (rule addObservations_ok(1) [OF a])
  show "loaded (snd (addObservations obs st))
          = (loaded st)\<lparr>entities := fold appendObservations results (entities (loaded st))\<rparr>"
    by (rule addObservations_ok(2) [OF a])
  show "addObservations obs (snd (addObservations obs st))
          = (Inr (map (\<lambda>b. \<lparr>resEntityName = entityName b, addedObservations = []\<rparr>) obs),
             snd (addObservations obs st))"
    by (rule addObservations_ok(3) [OF a])
  fix i assume i: "i < length obs"
  from addObservations_index [OF a i]
  show "\<exists>ent. findEntity (entityName (obs ! i))
              (entities (loaded (snd (addObservations (take i obs) st)))) = Some ent
            \<and> addedObservations (results ! i)
                = filter (\<lambda>ob. ob \<notin> set (observations ent)) (contents (obs ! i))"
    by auto
qed

lemma validateEntityType_code: "validateEntityType ''theme''" "validateEntityType ''memo''" "validateEntityType ''quote''"
  by (simp_all add: validateEntityType_def VALID_ENTITY_TYPES_def)

lemma createEntities_example:
  "createEntities [entA2, entC, entB] storeAB
     = (Inr [entC], Stored \<lparr>entities = [entA, entB, entC], relations = [relAB]\<rparr>)"
  by (simp add: createEntities_def firstInvalidEntityType_def entA_def entA2_def entB_def
      entC_def storeAB_def validateEntityType_code Let_def
      entityNames_def saveGraph_def)

lemma validateRelationType_ex: "validateRelationType ''related_to''" "validateRelationType ''codes''"
  by (simp_all add: validateRelationType_def VALID_RELATION_TYPES_def)

lemma createRelations_example:
  "createRelations [relAB, relBA] storeAB
     = (Inr [relBA], Stored \<lparr>entities = [entA, entB], relations = [relAB, relBA]\<rparr>)"
  by (simp add: createRelations_def relAB_def relBA_def entA_def entB_def relationKey_def
      storeAB_def validateRelationType_ex Let_def
      entityNames_def saveGraph_def)

lemma addObservations_example:
  "addObservations [obsA, obsA] storeAB
     = (Inr [\<lparr>resEntityName = ''A'', addedObservations = [''second'', ''second'']\<rparr>,
             \<lparr>resEntityName = ''A'', addedObservations = []\<rparr>],
        Stored \<lparr>entities = [entA\<lparr>observations := [''first'', ''second'', ''second'']\<rparr>, entB],
                relations = [relAB]\<rparr>)"
  by (simp add: addObservations_def obsA_def entA_def entB_def storeAB_def Let_def saveGraph_def)


lemma create_operations_delta_example:
  "fst (createEntities [entA2, entC, entB] storeAB) = Inr [entC]
   \<and> createEntities [entA2, entC, entB] (snd (createEntities [entA2, entC, entB] storeAB))
       = (Inr [], Stored \<lparr>entities = [entA, entB, entC], relations = [relAB]\<rparr>)
   \<and> fst (createRelations [relAB, relBA] storeAB) = Inr [relBA]
   \<and> createRelations [relAB, relBA] (snd (createRelations [relAB, relBA] storeAB))
       = (Inr [], Stored \<lparr>entities = [entA, entB], relations = [relAB, relBA]\<rparr>)
   \<and> fst (addObservations [obsA, obsA] storeAB)
       = Inr [\<lparr>resEntityName = ''A'', addedObservations = [''second'', ''second'']\<rparr>,
              \<lparr>resEntityName = ''A'', addedObservations = []\<rparr>]
   \<and> fst (addObservations [obsA, obsA] (snd (addObservations [obsA, obsA] storeAB)))
       = Inr [\<lparr>resEntityName = ''A'', addedObservations = []\<rparr>,
              \<lparr>resEntityName = ''A'', addedObservations = []\<rparr>]"
proof -
  note t = create_operations_delta [of "[entA2, entC, entB]" storeAB "[entC]"
      "[relAB, relBA]" "[relBA]" "[obsA, obsA]"
      "[\<lparr>resEntityName = ''A'', addedObservations = [''second'', ''second'']\<rparr>,
        \<lparr>resEntityName = ''A'', addedObservations = []\<rparr>]"]
  have e: "fst (createEntities [entA2, entC, entB] storeAB) = Inr [entC]"
    by (simp add: createEntities_example)
  have r: "fst (createRelations [relAB, relBA] storeAB) = Inr [relBA]"
    by (simp add: createRelations_example)
  have b: "fst (addObservations [obsA, obsA] storeAB)
       = Inr [\<lparr>resEntityName = ''A'', addedObservations = [''second'', ''second'']\<rparr>,
              \<lparr>resEntityName = ''A'', addedObservations = []\<rparr>]"
    by (simp add: addObservations_example)
  from t e have e2: "createEntities [entA2, entC, entB] (snd (createEntities [entA2, entC, entB] storeAB))
       = (Inr [], snd (createEntities [entA2, entC, entB] storeAB))" by blast
  from t r have r2: "createRelations [relAB, relBA] (snd (createRelations [relAB, relBA] storeAB))
       = (Inr [], snd (createRelations [relAB, relBA] storeAB))" by blast
  from t b have b2: "addObservations [obsA, obsA] (snd (addObservations [obsA, obsA] storeAB))
       = (Inr (map (\<lambda>b. \<lparr>resEntityName = entityName b, addedObservations = []\<rparr>) [obsA, obsA]),
          snd (addObservations [obsA, obsA] storeAB))" by blast
  have n: "entityName obsA = ''A''" by (simp add: obsA_def)
  show ?thesis
    using e r b e2 r2 b2
    by (simp add: createEntities_example createRelations_example n)
qed


text \<open>
  The duplicate filter of \<open>createRelations\<close> compares the joined keys, not the triples: two
  different triples whose names hold a colon can share a key, and then the second one is
  filtered out like a duplicate.
\<close>

lemma relationKey_not_injective:
  "relationKey \<lparr>from_r = ''a:b'', to_r = ''c'', relationType = ''codes''\<rparr>
     = relationKey \<lparr>from_r = ''a'', to_r = ''b:c'', relationType = ''codes''\<rparr>"
  by (simp add: relationKey_def)

lemma createRelations_key_collision:
  "createRelations [relColliding] storeColons = (Inr [], storeColons)"
  by (simp add: createRelations_def storeColons_def relColliding_def relationKey_def
      entityNames_def validateRelationType_ex Let_def saveGraph_def)

lemma storeColons_built:
  "snd (createRelations [\<lparr>from_r = ''a:b'', to_r = ''c'', relationType = ''codes''\<rparr>]
     (snd (createEntities
        [\<lparr>name = ''a:b'', entityType = ''code'', observations = []\<rparr>,
         \<lparr>name = ''c'', entityType = ''quote'', observations = []\<rparr>,
         \<lparr>name = ''a'', entityType = ''code'', observations = []\<rparr>,
         \<lparr>name = ''b:c'', entityType = ''quote'', observations = []\<rparr>] Absent)))
   = storeColons"
proof -
  have e: "snd (createEntities
        [\<lparr>name = ''a:b'', entityType = ''code'', observations = []\<rparr>,
         \<lparr>name = ''c'', entityType = ''quote'', observations = []\<rparr>,
         \<lparr>name = ''a'', entityType = ''code'', observations = []\<rparr>,
         \<lparr>name = ''b:c'', entityType = ''quote'', observations = []\<rparr>] Absent)
      = Stored \<lparr>entities =
          [\<lparr>name = ''a:b'', entityType = ''code'', observations = []\<rparr>,
           \<lparr>name = ''c'', entityType = ''quote'', observations = []\<rparr>,
           \<lparr>name = ''a'', entityType = ''code'', observations = []\<rparr>,
           \<lparr>name = ''b:c'', entityType = ''quote'', observations = []\<rparr>], relations = []\<rparr>"
    by (simp add: createEntities_def firstInvalidEntityType_def validateEntityType_code
        validateEntityType_def VALID_ENTITY_TYPES_def Let_def entityNames_def saveGraph_def
        loaded_def empty_graph_def)
  show ?thesis
    unfolding e
    by (simp add: createRelations_def storeColons_def relationKey_def entityNames_def
        validateRelationType_ex Let_def saveGraph_def)
qed

text \<open>
  Claim C1. The claim holds of \<open>createEntities\<close> and \<open>addObservations\<close>, and of
  \<open>createRelations\<close> wherever the joined keys tell the triples apart (lemma
  \<open>create_operations_delta\<close>). It fails for \<open>createRelations\<close> on the graph below, built by
  the public operations: the relation from \<open>a\<close> to \<open>b:c\<close> is not in the graph, both its
  endpoints exist and its type is valid, and still nothing is inserted and the delta is
  empty, because the relation from \<open>a:b\<close> to \<open>c\<close> has the same joined key.
  \<open>deleteRelations\<close>, which compares the three fields, finds no such relation to remove.
\<close>

theorem createRelations_skips_absent_triple:
  "reachable storeColons
   \<and> relColliding \<notin> set (relations (loaded storeColons))
   \<and> from_r relColliding \<in> set (entityNames (loaded storeColons))
   \<and> to_r relColliding \<in> set (entityNames (loaded storeColons))
   \<and> validateRelationType (relationType relColliding)
   \<and> createRelations [relColliding] storeColons = (Inr [], storeColons)
   \<and> deleteRelations [relColliding] storeColons = storeColons"
proof -
  have "reachable (snd (createRelations [\<lparr>from_r = ''a:b'', to_r = ''c'', relationType = ''codes''\<rparr>]
     (snd (createEntities
        [\<lparr>name = ''a:b'', entityType = ''code'', observations = []\<rparr>,
         \<lparr>name = ''c'', entityType = ''quote'', observations = []\<rparr>,
         \<lparr>name = ''a'', entityType = ''code'', observations = []\<rparr>,
         \<lparr>name = ''b:c'', entityType = ''quote'', observations = []\<rparr>] Absent))))"
    by (intro reachable.intros)
  then have r: "reachable storeColons" unfolding storeColons_built .
  have d: "deleteRelations [relColliding] storeColons = storeColons"
    by (simp add: deleteRelations_def storeColons_def relColliding_def Let_def saveGraph_def)
  have m: "relColliding \<notin> set (relations (loaded storeColons))"
    "from_r relColliding \<in> set (entityNames (loaded storeColons))"
    "to_r relColliding \<in> set (entityNames (loaded storeColons))"
    by (simp_all add: storeColons_def relColliding_def entityNames_def)
  have v: "validateRelationType (relationType relColliding)"
    by (simp add: relColliding_def validateRelationType_ex)
  from r m v createRelations_key_collision d show ?thesis by (intro conjI)
qed

section \<open>Loading the store\<close>

text \<open>
  Claim C9. \<open>loadGraph\<close> returns the empty graph when the store file is absent, and it
  returns the empty graph just the same when the file cannot be read or does not parse:
  its \<open>catch\<close> clause tells no error from another, and no error leaves the function.
\<close>

theorem loadGraph_absorbs_every_failure:
  "loadGraph Absent = Inr empty_graph
   \<and> loadGraph Corrupt = Inr empty_graph
   \<and> loadGraph Unreadable = Inr empty_graph
   \<and> (\<nexists>st e. loadGraph st = Inl e)"
proof -
  have "loadGraph st \<noteq> Inl e" for st e
    by (cases st) simp_all
  then show ?thesis by simp
qed

section \<open>Status and priority edges\<close>


lemma split_on_nonempty: "split_on sep s \<noteq> []"
  by (induction s) (auto split: list.splits)

lemma split_on_no_sep: "sep \<notin> set s \<Longrightarrow> split_on sep s = [s]"
  by (induction s) auto

lemma split_on_append_sep:
  "sep \<notin> set a \<Longrightarrow> split_on sep (a @ sep # b) = a # split_on sep b"
  by (induction a) auto

lemma secondPiece_prefixed:
  assumes "CHR '':'' \<notin> set p" and "CHR '':'' \<notin> set v"
  shows "secondPiece (p @ '':'' @ v) = JString v"
  using assms by (simp add: secondPiece_def split_on_append_sep split_on_no_sep)

lemma status_values_no_colon: "v \<in> set VALID_STATUS_VALUES \<Longrightarrow> CHR '':'' \<notin> set v"
  by (auto simp: VALID_STATUS_VALUES_def)

lemma priority_values_no_colon: "v \<in> set VALID_PRIORITY_VALUES \<Longrightarrow> CHR '':'' \<notin> set v"
  by (auto simp: VALID_PRIORITY_VALUES_def)

lemma secondPiece_status: "v \<in> set VALID_STATUS_VALUES \<Longrightarrow> secondPiece (''status:'' @ v) = JString v"
  using secondPiece_prefixed [of "''status''" v] status_values_no_colon [of v] by simp

lemma secondPiece_priority: "v \<in> set VALID_PRIORITY_VALUES \<Longrightarrow> secondPiece (''priority:'' @ v) = JString v"
  using secondPiece_prefixed [of "''priority''" v] priority_values_no_colon [of v] by simp

lemma find_filter_hd:
  "find P xs = (case filter P xs of [] \<Rightarrow> None | x # _ \<Rightarrow> Some x)"
  by (induction xs) auto

lemma getEntityStatus_edges:
  "getEntityStatus n st =
     (case edgesOf ''has_status'' n (loaded st) of
        [] \<Rightarrow> JNull | r # _ \<Rightarrow> secondPiece (to_r r))"
  by (simp add: getEntityStatus_def edgesOf_def find_filter_hd Let_def split: list.splits)

lemma getEntityPriority_edges:
  "getEntityPriority n st =
     (case edgesOf ''has_priority'' n (loaded st) of
        [] \<Rightarrow> JNull | r # _ \<Rightarrow> secondPiece (to_r r))"
  by (simp add: getEntityPriority_def edgesOf_def find_filter_hd Let_def split: list.splits)

text \<open>The replacement both setters perform, for any relation type and target.\<close>

lemma edgesOf_replace:
  "filter (\<lambda>r. from_r r = m \<and> relationType r = rt)
     (filter (\<lambda>r. \<not> (from_r r = n \<and> relationType r = rt)) rs
        @ [\<lparr>from_r = n, to_r = t, relationType = rt\<rparr>])
   = (if m = n then [\<lparr>from_r = n, to_r = t, relationType = rt\<rparr>]
      else filter (\<lambda>r. from_r r = m \<and> relationType r = rt) rs)"
  by (induction rs) auto

lemma edgesOf_replace_other:
  "rt' \<noteq> rt \<Longrightarrow>
   filter (\<lambda>r. from_r r = m \<and> relationType r = rt')
     (filter (\<lambda>r. \<not> (from_r r = n \<and> relationType r = rt)) rs
        @ [\<lparr>from_r = n, to_r = t, relationType = rt\<rparr>])
   = filter (\<lambda>r. from_r r = m \<and> relationType r = rt') rs"
  by (induction rs) auto

lemma setEntityStatus_invalid:
  "v \<notin> set VALID_STATUS_VALUES \<Longrightarrow> setEntityStatus n v st = (Inl (ValidationError v), st)"
  by (simp add: setEntityStatus_def)

lemma setEntityPriority_invalid:
  "v \<notin> set VALID_PRIORITY_VALUES \<Longrightarrow> setEntityPriority n v st = (Inl (ValidationError v), st)"
  by (simp add: setEntityPriority_def)

lemma setEntityStatus_valid:
  assumes "v \<in> set VALID_STATUS_VALUES"
  shows "fst (setEntityStatus n v st) = Inr ()"
    and "loaded (snd (setEntityStatus n v st)) = (loaded st)\<lparr>relations :=
           filter (\<lambda>r. \<not> (from_r r = n \<and> relationType r = ''has_status'')) (relations (loaded st))
           @ [\<lparr>from_r = n, to_r = ''status:'' @ v, relationType = ''has_status''\<rparr>]\<rparr>"
    and "edgesOf ''has_status'' m (loaded (snd (setEntityStatus n v st)))
           = (if m = n then [\<lparr>from_r = n, to_r = ''status:'' @ v, relationType = ''has_status''\<rparr>]
              else edgesOf ''has_status'' m (loaded st))"
    and "getEntityStatus n (snd (setEntityStatus n v st)) = JString v"
proof -
  show "fst (setEntityStatus n v st) = Inr ()"
    using assms by (simp add: setEntityStatus_def Let_def)
  show l: "loaded (snd (setEntityStatus n v st)) = (loaded st)\<lparr>relations :=
           filter (\<lambda>r. \<not> (from_r r = n \<and> relationType r = ''has_status'')) (relations (loaded st))
           @ [\<lparr>from_r = n, to_r = ''status:'' @ v, relationType = ''has_status''\<rparr>]\<rparr>"
    using assms by (simp add: setEntityStatus_def Let_def)
  show e: "edgesOf ''has_status'' m (loaded (snd (setEntityStatus n v st)))
           = (if m = n then [\<lparr>from_r = n, to_r = ''status:'' @ v, relationType = ''has_status''\<rparr>]
              else edgesOf ''has_status'' m (loaded st))" for m
    unfolding l edgesOf_def
    using edgesOf_replace [of m "''has_status''" n "relations (loaded st)" "''status:'' @ v"]
    by simp
  show "getEntityStatus n (snd (setEntityStatus n v st)) = JString v"
    unfolding getEntityStatus_edges e using secondPiece_status [OF assms] by simp
qed

lemma setEntityPriority_valid:
  assumes "v \<in> set VALID_PRIORITY_VALUES"
  shows "fst (setEntityPriority n v st) = Inr ()"
    and "loaded (snd (setEntityPriority n v st)) = (loaded st)\<lparr>relations :=
           filter (\<lambda>r. \<not> (from_r r = n \<and> relationType r = ''has_priority'')) (relations (loaded st))
           @ [\<lparr>from_r = n, to_r = ''priority:'' @ v, relationType = ''has_priority''\<rparr>]\<rparr>"
    and "edgesOf ''has_priority'' m (loaded (snd (setEntityPriority n v st)))
           = (if m = n then [\<lparr>from_r = n, to_r = ''priority:'' @ v, relationType = ''has_priority''\<rparr>]
              else edgesOf ''has_priority'' m (loaded st))"
    and "getEntityPriority n (snd (setEntityPriority n v st)) = JString v"
proof -
  show "fst (setEntityPriority n v st) = Inr ()"
    using assms by (simp add: setEntityPriority_def Let_def)
  show l: "loaded (snd (setEntityPriority n v st)) = (loaded st)\<lparr>relations :=
           filter (\<lambda>r. \<not> (from_r r = n \<and> relationType r = ''has_priority'')) (relations (loaded st))
           @ [\<lparr>from_r = n, to_r = ''priority:'' @ v, relationType = ''has_priority''\<rparr>]\<rparr>"
    using assms by (simp add: setEntityPriority_def Let_def)
  show e: "edgesOf ''has_priority'' m (loaded (snd (setEntityPriority n v st)))
           = (if m = n then [\<lparr>from_r = n, to_r = ''priority:'' @ v, relationType = ''has_priority''\<rparr>]
              else edgesOf ''has_priority'' m (loaded st))" for m
    unfolding l edgesOf_def
    using edgesOf_replace [of m "''has_priority''" n "relations (loaded st)" "''priority:'' @ v"]
    by simp
  show "getEntityPriority n (snd (setEntityPriority n v st)) = JString v"
    unfolding getEntityPriority_edges e using secondPiece_priority [OF assms] by simp
qed

lemma setEntityStatus_at_most_one:
  "length (edgesOf ''has_status'' m (loaded st)) \<le> 1
     \<Longrightarrow> length (edgesOf ''has_status'' m (loaded (snd (setEntityStatus n v st)))) \<le> 1"
  by (cases "v \<in> set VALID_STATUS_VALUES")
     (simp_all add: setEntityStatus_valid(3) setEntityStatus_invalid)

lemma setEntityPriority_at_most_one:
  "length (edgesOf ''has_priority'' m (loaded st)) \<le> 1
     \<Longrightarrow> length (edgesOf ''has_priority'' m (loaded (snd (setEntityPriority n v st)))) \<le> 1"
  by (cases "v \<in> set VALID_PRIORITY_VALUES")
     (simp_all add: setEntityPriority_valid(3) setEntityPriority_invalid)

lemma setStatuses_at_most_one:
  "length (edgesOf ''has_status'' m (loaded st)) \<le> 1
     \<Longrightarrow> length (edgesOf ''has_status'' m (loaded (setStatuses calls st))) \<le> 1"
proof (induction calls arbitrary: st)
  case Nil
  then show ?case by (simp add: setStatuses_def)
next
  case (Cons c calls)
  obtain n v where c: "c = (n, v)" by (cases c)
  have "setStatuses (c # calls) st = setStatuses calls (snd (setEntityStatus n v st))"
    by (simp add: setStatuses_def c)
  then show ?case
    using Cons.IH [OF setEntityStatus_at_most_one [OF Cons.prems]] by simp
qed

lemma setPriorities_at_most_one:
  "length (edgesOf ''has_priority'' m (loaded st)) \<le> 1
     \<Longrightarrow> length (edgesOf ''has_priority'' m (loaded (setPriorities calls st))) \<le> 1"
proof (induction calls arbitrary: st)
  case Nil
  then show ?case by (simp add: setPriorities_def)
next
  case (Cons c calls)
  obtain n v where c: "c = (n, v)" by (cases c)
  have "setPriorities (c # calls) st = setPriorities calls (snd (setEntityPriority n v st))"
    by (simp add: setPriorities_def c)
  then show ?case
    using Cons.IH [OF setEntityPriority_at_most_one [OF Cons.prems]] by simp
qed

lemma setEntityStatus_exactly_one:
  "length (edgesOf ''has_status'' m (loaded st)) = 1
     \<Longrightarrow> length (edgesOf ''has_status'' m (loaded (snd (setEntityStatus n v st)))) = 1"
  by (cases "v \<in> set VALID_STATUS_VALUES")
     (simp_all add: setEntityStatus_valid(3) setEntityStatus_invalid)

lemma setEntityPriority_exactly_one:
  "length (edgesOf ''has_priority'' m (loaded st)) = 1
     \<Longrightarrow> length (edgesOf ''has_priority'' m (loaded (snd (setEntityPriority n v st)))) = 1"
  by (cases "v \<in> set VALID_PRIORITY_VALUES")
     (simp_all add: setEntityPriority_valid(3) setEntityPriority_invalid)

lemma setStatuses_append: "setStatuses (xs @ ys) st = setStatuses ys (setStatuses xs st)"
  by (simp add: setStatuses_def)

lemma setPriorities_append: "setPriorities (xs @ ys) st = setPriorities ys (setPriorities xs st)"
  by (simp add: setPriorities_def)

lemma setStatuses_exactly_one:
  "length (edgesOf ''has_status'' m (loaded st)) = 1
     \<Longrightarrow> length (edgesOf ''has_status'' m (loaded (setStatuses calls st))) = 1"
proof (induction calls arbitrary: st)
  case Nil
  then show ?case by (simp add: setStatuses_def)
next
  case (Cons c calls)
  obtain n v where c: "c = (n, v)" by (cases c)
  have "setStatuses (c # calls) st = setStatuses calls (snd (setEntityStatus n v st))"
    by (simp add: setStatuses_def c)
  then show ?case
    using Cons.IH [OF setEntityStatus_exactly_one [OF Cons.prems]] by simp
qed

lemma setPriorities_exactly_one:
  "length (edgesOf ''has_priority'' m (loaded st)) = 1
     \<Longrightarrow> length (edgesOf ''has_priority'' m (loaded (setPriorities calls st))) = 1"
proof (induction calls arbitrary: st)
  case Nil
  then show ?case by (simp add: setPriorities_def)
next
  case (Cons c calls)
  obtain n v where c: "c = (n, v)" by (cases c)
  have "setPriorities (c # calls) st = setPriorities calls (snd (setEntityPriority n v st))"
    by (simp add: setPriorities_def c)
  then show ?case
    using Cons.IH [OF setEntityPriority_exactly_one [OF Cons.prems]] by simp
qed

lemma setStatuses_member:
  assumes "(n, v) \<in> set calls" and "v \<in> set VALID_STATUS_VALUES"
  shows "length (edgesOf ''has_status'' n (loaded (setStatuses calls st))) = 1"
proof -
  from assms(1) obtain pre post where sp: "calls = pre @ (n, v) # post"
    by (auto dest: split_list)
  have "setStatuses calls st
          = setStatuses post (snd (setEntityStatus n v (setStatuses pre st)))"
    unfolding sp setStatuses_append by (simp add: setStatuses_def)
  moreover have "length (edgesOf ''has_status'' n
      (loaded (snd (setEntityStatus n v (setStatuses pre st))))) = 1"
    by (simp add: setEntityStatus_valid(3) [OF assms(2)])
  ultimately show ?thesis using setStatuses_exactly_one by simp
qed

lemma setPriorities_member:
  assumes "(n, v) \<in> set calls" and "v \<in> set VALID_PRIORITY_VALUES"
  shows "length (edgesOf ''has_priority'' n (loaded (setPriorities calls st))) = 1"
proof -
  from assms(1) obtain pre post where sp: "calls = pre @ (n, v) # post"
    by (auto dest: split_list)
  have "setPriorities calls st
          = setPriorities post (snd (setEntityPriority n v (setPriorities pre st)))"
    unfolding sp setPriorities_append by (simp add: setPriorities_def)
  moreover have "length (edgesOf ''has_priority'' n
      (loaded (snd (setEntityPriority n v (setPriorities pre st))))) = 1"
    by (simp add: setEntityPriority_valid(3) [OF assms(2)])
  ultimately show ?thesis using setPriorities_exactly_one by simp
qed

lemma edgesOf_Absent: "edgesOf rt m (loaded Absent) = []"
  by (simp add: edgesOf_def loaded_def empty_graph_def)

text \<open>
  Claim C5. \<open>setEntityStatus\<close> with a value outside the status enumeration throws a
  validation error and leaves the store as it is. With a value of the enumeration it drops
  every outgoing \<open>has_status\<close> edge of the entity and appends the edge to \<open>status:value\<close>, so
  that the entity then has exactly this one edge and \<open>getEntityStatus\<close> returns the value.
  A run of \<open>setEntityStatus\<close> calls keeps "at most one outgoing \<open>has_status\<close> edge" for every
  entity for which it held before, in particular for all entities when the run starts from
  the empty store, and leaves exactly one for every entity it has set. \<open>getEntityStatus\<close>
  returns \<open>null\<close> when the entity has no such edge and otherwise the piece after the first
  colon of the target of its first such edge. The same holds of \<open>setEntityPriority\<close>
  and \<open>getEntityPriority\<close> with \<open>has_priority\<close>.
\<close>

theorem status_priority_single_edge:
  "(v \<notin> set VALID_STATUS_VALUES \<longrightarrow> setEntityStatus n v st = (Inl (ValidationError v), st))
   \<and> (v \<in> set VALID_STATUS_VALUES \<longrightarrow>
        fst (setEntityStatus n v st) = Inr ()
        \<and> loaded (snd (setEntityStatus n v st)) = (loaded st)\<lparr>relations :=
             filter (\<lambda>r. \<not> (from_r r = n \<and> relationType r = ''has_status'')) (relations (loaded st))
             @ [\<lparr>from_r = n, to_r = ''status:'' @ v, relationType = ''has_status''\<rparr>]\<rparr>
        \<and> edgesOf ''has_status'' n (loaded (snd (setEntityStatus n v st)))
             = [\<lparr>from_r = n, to_r = ''status:'' @ v, relationType = ''has_status''\<rparr>]
        \<and> getEntityStatus n (snd (setEntityStatus n v st)) = JString v)
   \<and> (length (edgesOf ''has_status'' m (loaded st)) \<le> 1 \<longrightarrow>
        length (edgesOf ''has_status'' m (loaded (setStatuses calls st))) \<le> 1)
   \<and> length (edgesOf ''has_status'' m (loaded (setStatuses calls Absent))) \<le> 1
   \<and> ((n, v) \<in> set calls \<and> v \<in> set VALID_STATUS_VALUES \<longrightarrow>
        length (edgesOf ''has_status'' n (loaded (setStatuses calls st))) = 1)
   \<and> getEntityStatus n st =
        (case edgesOf ''has_status'' n (loaded st) of
           [] \<Rightarrow> JNull | r # _ \<Rightarrow> secondPiece (to_r r))
   \<and> (w \<notin> set VALID_PRIORITY_VALUES \<longrightarrow> setEntityPriority n w st = (Inl (ValidationError w), st))
   \<and> (w \<in> set VALID_PRIORITY_VALUES \<longrightarrow>
        fst (setEntityPriority n w st) = Inr ()
        \<and> loaded (snd (setEntityPriority n w st)) = (loaded st)\<lparr>relations :=
             filter (\<lambda>r. \<not> (from_r r = n \<and> relationType r = ''has_priority'')) (relations (loaded st))
             @ [\<lparr>from_r = n, to_r = ''priority:'' @ w, relationType = ''has_priority''\<rparr>]\<rparr>
        \<and> edgesOf ''has_priority'' n (loaded (snd (setEntityPriority n w st)))
             = [\<lparr>from_r = n, to_r = ''priority:'' @ w, relationType = ''has_priority''\<rparr>]
        \<and> getEntityPriority n (snd (setEntityPriority n w st)) = JString w)
   \<and> (length (edgesOf ''has_priority'' m (loaded st)) \<le> 1 \<longrightarrow>
        length (edgesOf ''has_priority'' m (loaded (setPriorities pcalls st))) \<le> 1)
   \<and> length (edgesOf ''has_priority'' m (loaded (setPriorities pcalls Absent))) \<le> 1
   \<and> ((n, w) \<in> set pcalls \<and> w \<in> set VALID_PRIORITY_VALUES \<longrightarrow>
        length (edgesOf ''has_priority'' n (loaded (setPriorities pcalls st))) = 1)
   \<and> getEntityPriority n st =
        (case edgesOf ''has_priority'' n (loaded st) of
           [] \<Rightarrow> JNull | r # _ \<Rightarrow> secondPiece (to_r r))"
proof -
  have s0: "length (edgesOf ''has_status'' m (loaded (setStatuses calls Absent))) \<le> 1"
    by (rule setStatuses_at_most_one) (simp add: edgesOf_Absent)
  have p0: "length (edgesOf ''has_priority'' m (loaded (setPriorities pcalls Absent))) \<le> 1"
    by (rule setPriorities_at_most_one) (simp add: edgesOf_Absent)
  have s1: "v \<in> set VALID_STATUS_VALUES \<Longrightarrow>
        edgesOf ''has_status'' n (loaded (snd (setEntityStatus n v st)))
             = [\<lparr>from_r = n, to_r = ''status:'' @ v, relationType = ''has_status''\<rparr>]"
    by (simp add: setEntityStatus_valid(3))
  have p1: "w \<in> set VALID_PRIORITY_VALUES \<Longrightarrow>
        edgesOf ''has_priority'' n (loaded (snd (setEntityPriority n w st)))
             = [\<lparr>from_r = n, to_r = ''priority:'' @ w, relationType = ''has_priority''\<rparr>]"
    by (simp add: setEntityPriority_valid(3))
  show ?thesis
    using s0 p0 s1 p1
      setEntityStatus_invalid [of v n st] setEntityStatus_valid(1,2,4) [of v n st]
      setStatuses_at_most_one [of m st calls] setStatuses_member [of n v calls st]
      getEntityStatus_edges [of n st]
      setEntityPriority_invalid [of w n st] setEntityPriority_valid(1,2,4) [of w n st]
      setPriorities_at_most_one [of m st pcalls] setPriorities_member [of n w pcalls st]
      getEntityPriority_edges [of n st]
    by blast
qed

lemma status_examples:
  "''draft'' \<in> set VALID_STATUS_VALUES" "''final'' \<in> set VALID_STATUS_VALUES"
  "''bogus'' \<notin> set VALID_STATUS_VALUES"
  by (simp_all add: VALID_STATUS_VALUES_def)

lemma priority_examples:
  "''high'' \<in> set VALID_PRIORITY_VALUES" "''low'' \<in> set VALID_PRIORITY_VALUES"
  "''urgent'' \<notin> set VALID_PRIORITY_VALUES"
  by (simp_all add: VALID_PRIORITY_VALUES_def)

lemma setStatuses_example:
  "setStatuses [(''X'', ''draft''), (''X'', ''final'')] Absent
     = Stored \<lparr>entities = [], relations =
         [\<lparr>from_r = ''X'', to_r = ''status:final'', relationType = ''has_status''\<rparr>]\<rparr>"
  by (simp add: setStatuses_def setEntityStatus_def status_examples Let_def saveGraph_def
      loaded_def empty_graph_def)

lemma setPriorities_example:
  "setPriorities [(''X'', ''low''), (''X'', ''high'')] Absent
     = Stored \<lparr>entities = [], relations =
         [\<lparr>from_r = ''X'', to_r = ''priority:high'', relationType = ''has_priority''\<rparr>]\<rparr>"
  by (simp add: setPriorities_def setEntityPriority_def priority_examples Let_def saveGraph_def
      loaded_def empty_graph_def)

theorem status_priority_single_edge_witness:
  "setEntityStatus ''X'' ''bogus'' Absent = (Inl (ValidationError ''bogus''), Absent)
   \<and> length (edgesOf ''has_status'' ''X''
        (loaded (setStatuses [(''X'', ''draft''), (''X'', ''final'')] Absent))) = 1
   \<and> edgesOf ''has_status'' ''X''
        (loaded (setStatuses [(''X'', ''draft''), (''X'', ''final'')] Absent))
       = [\<lparr>from_r = ''X'', to_r = ''status:final'', relationType = ''has_status''\<rparr>]
   \<and> getEntityStatus ''X'' (setStatuses [(''X'', ''draft''), (''X'', ''final'')] Absent)
       = JString ''final''
   \<and> getEntityStatus ''X'' Absent = JNull
   \<and> setEntityPriority ''X'' ''urgent'' Absent = (Inl (ValidationError ''urgent''), Absent)
   \<and> length (edgesOf ''has_priority'' ''X''
        (loaded (setPriorities [(''X'', ''low''), (''X'', ''high'')] Absent))) = 1
   \<and> getEntityPriority ''X'' (setPriorities [(''X'', ''low''), (''X'', ''high'')] Absent)
       = JString ''high''"
proof -
  note a = status_priority_single_edge [of "''bogus''" "''X''" Absent "''X''" "[]" "''urgent''" "[]"]
  note b = status_priority_single_edge [of "''final''" "''X''"
      "setStatuses [(''X'', ''draft'')] Absent" "''X''"
      "[(''X'', ''draft''), (''X'', ''final'')]" "''high''"
      "[(''X'', ''low''), (''X'', ''high'')]"]
  note c = status_priority_single_edge [of "''final''" "''X''" Absent "''X''"
      "[(''X'', ''draft''), (''X'', ''final'')]" "''high''"
      "[(''X'', ''low''), (''X'', ''high'')]"]
  have 1: "setEntityStatus ''X'' ''bogus'' Absent = (Inl (ValidationError ''bogus''), Absent)"
    using a status_examples by blast
  have 2: "setEntityPriority ''X'' ''urgent'' Absent = (Inl (ValidationError ''urgent''), Absent)"
    using a priority_examples by blast
  have 3: "length (edgesOf ''has_status'' ''X''
        (loaded (setStatuses [(''X'', ''draft''), (''X'', ''final'')] Absent))) = 1"
    using c status_examples by simp
  have 4: "length (edgesOf ''has_priority'' ''X''
        (loaded (setPriorities [(''X'', ''low''), (''X'', ''high'')] Absent))) = 1"
    using c priority_examples by simp
  have s: "setStatuses [(''X'', ''draft''), (''X'', ''final'')] Absent
      = snd (setEntityStatus ''X'' ''final'' (setStatuses [(''X'', ''draft'')] Absent))"
    by (simp add: setStatuses_def)
  have 5: "getEntityStatus ''X'' (setStatuses [(''X'', ''draft''), (''X'', ''final'')] Absent)
       = JString ''final''"
    unfolding s using b status_examples by blast
  have 6: "edgesOf ''has_status'' ''X''
        (loaded (setStatuses [(''X'', ''draft''), (''X'', ''final'')] Absent))
       = [\<lparr>from_r = ''X'', to_r = ''status:final'', relationType = ''has_status''\<rparr>]"
    by (simp add: setStatuses_example edgesOf_def)
  have 7: "getEntityStatus ''X'' Absent = JNull"
    by (simp add: getEntityStatus_def loaded_def empty_graph_def)
  have 8: "getEntityPriority ''X'' (setPriorities [(''X'', ''low''), (''X'', ''high'')] Absent)
       = JString ''high''"
    by (simp add: setPriorities_example getEntityPriority_def secondPiece_def)
  from 1 2 3 4 5 6 7 8 show ?thesis by simp
qed

section \<open>Well-formedness under the operations\<close>


lemma appendObservations_names: "map name (appendObservations r es) = map name es"
  unfolding appendObservations_def by (rule updateFirst_names) simp

lemma fold_appendObservations_names: "map name (fold appendObservations rs es) = map name es"
  by (induction rs arbitrary: es) (simp_all add: appendObservations_names)

lemma addObservations_names: "entityNames (loaded (snd (addObservations batch st))) = entityNames (loaded st)"
proof (cases "fst (addObservations batch st)")
  case (Inl e)
  then show ?thesis using addObservations_error [of batch st e] by simp
next
  case (Inr results)
  then show ?thesis
    using addObservations_ok(2) [of batch st results]
    by (simp add: entityNames_def fold_appendObservations_names)
qed

lemma addObservations_relations: "relations (loaded (snd (addObservations batch st))) = relations (loaded st)"
proof (cases "fst (addObservations batch st)")
  case (Inl e)
  then show ?thesis using addObservations_error [of batch st e] by simp
next
  case (Inr results)
  then show ?thesis
    using addObservations_ok(2) [of batch st results] by simp
qed

lemma deleteObservationsLoop_names: "map name (deleteObservationsLoop dels es) = map name es"
  by (induction dels arbitrary: es) (simp_all add: updateFirst_names)

lemma wellFormed_same:
  "entityNames g' = entityNames g \<Longrightarrow> relations g' = relations g \<Longrightarrow> wellFormed g \<Longrightarrow> wellFormed g'"
  by (simp add: wellFormed_def uniqueNames_def noDangling_def)

lemma wellFormed_addObservations:
  "wellFormed (loaded st) \<Longrightarrow> wellFormed (loaded (snd (addObservations batch st)))"
  using wellFormed_same [OF addObservations_names addObservations_relations] .

lemma wellFormed_deleteObservations:
  "wellFormed (loaded st) \<Longrightarrow> wellFormed (loaded (deleteObservations dels st))"
  by (rule wellFormed_same [rotated 2])
     (simp_all add: deleteObservations_def Let_def entityNames_def deleteObservationsLoop_names)

lemma wellFormed_deleteRelations:
  "wellFormed (loaded st) \<Longrightarrow> wellFormed (loaded (deleteRelations rels st))"
  by (auto simp: wellFormed_def uniqueNames_def noDangling_def deleteRelations_def Let_def
      entityNames_def)

lemma wellFormed_deleteEntities:
  "wellFormed (loaded st) \<Longrightarrow> wellFormed (loaded (deleteEntities ns st))"
  by (auto simp: wellFormed_def uniqueNames_def noDangling_def deleteEntities_def Let_def
      entityNames_def distinct_map_filter)

lemma wellFormed_createRelations:
  assumes "wellFormed (loaded st)"
  shows "wellFormed (loaded (snd (createRelations rels st)))"
proof (cases "fst (createRelations rels st)")
  case (Inl e)
  then show ?thesis using createRelations_error [of rels st e] assms by simp
next
  case (Inr created)
  have ok: "checkRelations (set (entityNames (loaded st))) rels = None"
    using Inr by (auto simp: createRelations_def Let_def split: option.splits)
  have "\<forall>r \<in> set created. from_r r \<in> set (entityNames (loaded st)) \<and> to_r r \<in> set (entityNames (loaded st))"
    using ok createRelations_ok(1) [OF Inr] by (auto simp: checkRelations_None)
  then show ?thesis
    using assms createRelations_ok(3) [OF Inr]
    by (auto simp: wellFormed_def uniqueNames_def noDangling_def entityNames_def)
qed

lemma wellFormed_createEntities:
  assumes "wellFormed (loaded st)" and "distinct (map name batch)"
  shows "wellFormed (loaded (snd (createEntities batch st)))"
proof (cases "fst (createEntities batch st)")
  case (Inl e)
  then show ?thesis using createEntities_error [of batch st e] assms by simp
next
  case (Inr created)
  have c: "created = filter (\<lambda>e. name e \<notin> set (entityNames (loaded st))) batch"
    by (rule createEntities_ok(1) [OF Inr])
  have "distinct (map name created)"
    unfolding c using assms(2) by (rule distinct_map_filter)
  moreover have "set (map name created) \<inter> set (entityNames (loaded st)) = {}"
    unfolding c by auto
  ultimately show ?thesis
    using assms(1) createEntities_ok(2) [OF Inr]
    by (auto simp: wellFormed_def uniqueNames_def noDangling_def entityNames_def)
qed

lemma wellFormed_setEntityStatus:
  assumes "wellFormed (loaded st)" and "n \<in> set (entityNames (loaded st))"
    and "''status:'' @ v \<in> set (entityNames (loaded st))"
  shows "wellFormed (loaded (snd (setEntityStatus n v st)))"
proof (cases "v \<in> set VALID_STATUS_VALUES")
  case True
  show ?thesis
    using assms unfolding setEntityStatus_valid(2) [OF True]
    by (auto simp: wellFormed_def uniqueNames_def noDangling_def entityNames_def)
next
  case False
  then show ?thesis using assms(1) by (simp add: setEntityStatus_invalid)
qed

lemma wellFormed_setEntityPriority:
  assumes "wellFormed (loaded st)" and "n \<in> set (entityNames (loaded st))"
    and "''priority:'' @ v \<in> set (entityNames (loaded st))"
  shows "wellFormed (loaded (snd (setEntityPriority n v st)))"
proof (cases "v \<in> set VALID_PRIORITY_VALUES")
  case True
  show ?thesis
    using assms unfolding setEntityPriority_valid(2) [OF True]
    by (auto simp: wellFormed_def uniqueNames_def noDangling_def entityNames_def)
next
  case False
  then show ?thesis using assms(1) by (simp add: setEntityPriority_invalid)
qed

lemma seedValues_extends:
  "\<exists>new. seedValues kind vs es = es @ new
     \<and> (\<forall>e \<in> set new. entityType e = kind \<and> name e \<in> (\<lambda>v. kind @ '':'' @ v) ` set vs)"
proof (induction vs arbitrary: es)
  case Nil
  then show ?case by simp
next
  case (Cons v vs)
  define es1 where "es1 = (if \<exists>e \<in> set es. name e = kind @ '':'' @ v \<and> entityType e = kind then es
        else es @ [\<lparr>name = kind @ '':'' @ v, entityType = kind,
                     observations = [''A '' @ v @ '' '' @ kind @ '' value'']\<rparr>])"
  have s: "seedValues kind (v # vs) es = seedValues kind vs es1"
    by (simp add: es1_def)
  from Cons.IH [of es1] obtain new where
    n: "seedValues kind vs es1 = es1 @ new"
       "\<forall>e \<in> set new. entityType e = kind \<and> name e \<in> (\<lambda>v. kind @ '':'' @ v) ` set vs"
    by blast
  have "\<exists>new1. es1 = es @ new1
      \<and> (\<forall>e \<in> set new1. entityType e = kind \<and> name e = kind @ '':'' @ v)"
  proof (cases "\<exists>e \<in> set es. name e = kind @ '':'' @ v \<and> entityType e = kind")
    case True
    then have "es1 = es @ []" unfolding es1_def by (simp only: if_True append_Nil2)
    then show ?thesis by fastforce
  next
    case False
    then have "es1 = es @ [\<lparr>name = kind @ '':'' @ v, entityType = kind,
                     observations = [''A '' @ v @ '' '' @ kind @ '' value'']\<rparr>]"
      unfolding es1_def by (simp only: if_False)
    then show ?thesis by fastforce
  qed
  then obtain new1 where n1: "es1 = es @ new1"
    "\<forall>e \<in> set new1. entityType e = kind \<and> name e = kind @ '':'' @ v"
    by blast
  have "seedValues kind (v # vs) es = es @ (new1 @ new)"
    using s n(1) n1(1) by simp
  moreover have "\<forall>e \<in> set (new1 @ new). entityType e = kind
      \<and> name e \<in> (\<lambda>v. kind @ '':'' @ v) ` set (v # vs)"
    using n(2) n1(2) by auto
  ultimately show ?case by blast
qed

lemma seedValues_distinct:
  assumes "distinct (map name es)"
    and "\<forall>e \<in> set es. name e \<in> (\<lambda>v. kind @ '':'' @ v) ` set vs \<longrightarrow> entityType e = kind"
  shows "distinct (map name (seedValues kind vs es))"
  using assms
proof (induction vs arbitrary: es)
  case Nil
  then show ?case by simp
next
  case (Cons v vs)
  show ?case
  proof (cases "\<exists>e \<in> set es. name e = kind @ '':'' @ v \<and> entityType e = kind")
    case True
    then have "seedValues kind (v # vs) es = seedValues kind vs es"
      by (subst seedValues.simps) (simp only: if_True)
    moreover have "distinct (map name (seedValues kind vs es))"
      using Cons.prems by (intro Cons.IH) auto
    ultimately show ?thesis by simp
  next
    case False
    define e1 where "e1 = \<lparr>name = kind @ '':'' @ v, entityType = kind,
                     observations = [''A '' @ v @ '' '' @ kind @ '' value'']\<rparr>"
    have absent: "kind @ '':'' @ v \<notin> name ` set es"
    proof
      assume "kind @ '':'' @ v \<in> name ` set es"
      then obtain e where e: "e \<in> set es" "name e = kind @ '':'' @ v" by auto
      then have "entityType e = kind" using Cons.prems(2) by auto
      with e False show False by auto
    qed
    have s: "seedValues kind (v # vs) es = seedValues kind vs (es @ [e1])"
      unfolding e1_def by (subst seedValues.simps) (simp only: False if_False)
    have "distinct (map name (seedValues kind vs (es @ [e1])))"
    proof (rule Cons.IH)
      show "distinct (map name (es @ [e1]))"
        using Cons.prems(1) absent by (simp add: e1_def)
      show "\<forall>e\<in>set (es @ [e1]). name e \<in> (\<lambda>v. kind @ '':'' @ v) ` set vs \<longrightarrow> entityType e = kind"
        using Cons.prems(2) by (auto simp: e1_def)
    qed
    with s show ?thesis by simp
  qed
qed

lemma initialize_entities:
  "entities (loaded (initializeStatusAndPriority st))
     = seedValues ''priority'' VALID_PRIORITY_VALUES
         (seedValues ''status'' VALID_STATUS_VALUES (entities (loaded st)))"
  by (simp add: initializeStatusAndPriority_def Let_def)

lemma initialize_relations:
  "relations (loaded (initializeStatusAndPriority st)) = relations (loaded st)"
  by (simp add: initializeStatusAndPriority_def Let_def)

lemma wellFormed_initialize:
  assumes "wellFormed (loaded st)" and "reservedTyped (loaded st)"
  shows "wellFormed (loaded (initializeStatusAndPriority st))"
proof -
  define es where "es = entities (loaded st)"
  define es1 where "es1 = seedValues ''status'' VALID_STATUS_VALUES es"
  define es2 where "es2 = seedValues ''priority'' VALID_PRIORITY_VALUES es1"
  from seedValues_extends [of "''status''" VALID_STATUS_VALUES es] obtain new1 where
    n1: "es1 = es @ new1"
        "\<forall>e \<in> set new1. entityType e = ''status''
            \<and> name e \<in> (\<lambda>v. ''status'' @ '':'' @ v) ` set VALID_STATUS_VALUES"
    unfolding es1_def by blast
  from seedValues_extends [of "''priority''" VALID_PRIORITY_VALUES es1] obtain new2 where
    n2: "es2 = es1 @ new2"
    unfolding es2_def by blast
  have d0: "distinct (map name es)"
    using assms(1) by (simp add: wellFormed_def uniqueNames_def entityNames_def es_def)
  have d1: "distinct (map name es1)"
    unfolding es1_def
    using d0 assms(2) by (intro seedValues_distinct) (auto simp: reservedTyped_def es_def)
  have g1: "\<forall>e \<in> set es1. name e \<in> (\<lambda>v. ''priority'' @ '':'' @ v) ` set VALID_PRIORITY_VALUES
              \<longrightarrow> entityType e = ''priority''"
  proof
    fix e assume e: "e \<in> set es1"
    show "name e \<in> (\<lambda>v. ''priority'' @ '':'' @ v) ` set VALID_PRIORITY_VALUES
              \<longrightarrow> entityType e = ''priority''"
    proof (cases "e \<in> set es")
      case True
      then show ?thesis using assms(2) by (auto simp: reservedTyped_def es_def)
    next
      case False
      then have "e \<in> set new1" using e n1(1) by simp
      then have "name e \<in> (\<lambda>v. ''status'' @ '':'' @ v) ` set VALID_STATUS_VALUES"
        using n1(2) by blast
      then show ?thesis by auto
    qed
  qed
  have d2: "distinct (map name es2)"
    unfolding es2_def using d1 g1 by (rule seedValues_distinct)
  have sub: "set (map name es) \<subseteq> set (map name es2)"
    using n1(1) n2 by auto
  have "entities (loaded (initializeStatusAndPriority st)) = es2"
    by (simp add: initialize_entities es2_def es1_def es_def)
  then show ?thesis
    using assms(1) d2 sub initialize_relations [of st]
    by (auto simp: wellFormed_def uniqueNames_def noDangling_def entityNames_def es_def)
qed

lemma wellFormed_Absent: "wellFormed (loaded Absent)"
  by (simp add: wellFormed_def uniqueNames_def noDangling_def entityNames_def loaded_def
      empty_graph_def)

section \<open>Reachable stores\<close>


text \<open>
  Claim C2, as amended. Every store reached from the absent store file through the public
  operations is well formed (no two entities share a name, every relation endpoint names
  an entity), as long as no \<open>createEntities\<close> batch names an entity twice,
  \<open>initializeStatusAndPriority\<close> runs while the reserved names have the reserved types, and
  the setters are called for existing entities whose value entity exists.
\<close>

theorem guarded_reachable_wellFormed:
  "reachableGuarded st \<Longrightarrow> wellFormed (loaded st)"
proof (induction rule: reachableGuarded.induct)
  case start
  show ?case by (rule wellFormed_Absent)
next
  case (createEntities st batch)
  then show ?case by (simp add: wellFormed_createEntities)
next
  case (createRelations st rels)
  then show ?case by (simp add: wellFormed_createRelations)
next
  case (addObservations st obs)
  then show ?case by (simp add: wellFormed_addObservations)
next
  case (deleteEntities st ns)
  then show ?case by (simp add: wellFormed_deleteEntities)
next
  case (deleteObservations st dels)
  then show ?case by (simp add: wellFormed_deleteObservations)
next
  case (deleteRelations st rels)
  then show ?case by (simp add: wellFormed_deleteRelations)
next
  case (initializeStatusAndPriority st)
  then show ?case by (simp add: wellFormed_initialize)
next
  case (setEntityStatus st n v)
  then show ?case by (simp add: wellFormed_setEntityStatus)
next
  case (setEntityPriority st n v)
  then show ?case by (simp add: wellFormed_setEntityPriority)
qed

lemma createEntities_AB:
  "snd (createEntities [entA, entB] Absent) = Stored \<lparr>entities = [entA, entB], relations = []\<rparr>"
  by (simp add: createEntities_def firstInvalidEntityType_def entA_def entB_def
      validateEntityType_def VALID_ENTITY_TYPES_def Let_def entityNames_def saveGraph_def
      loaded_def empty_graph_def)

lemma seedValues_has_name:
  "v \<in> set vs \<Longrightarrow> kind @ '':'' @ v \<in> name ` set (seedValues kind vs es)"
proof (induction vs arbitrary: es)
  case Nil
  then show ?case by simp
next
  case (Cons a vs)
  define es1 where "es1 = (if \<exists>e \<in> set es. name e = kind @ '':'' @ a \<and> entityType e = kind then es
        else es @ [\<lparr>name = kind @ '':'' @ a, entityType = kind,
                     observations = [''A '' @ a @ '' '' @ kind @ '' value'']\<rparr>])"
  have s: "seedValues kind (a # vs) es = seedValues kind vs es1"
    by (simp add: es1_def)
  show ?case
  proof (cases "v = a")
    case True
    have "kind @ '':'' @ a \<in> name ` set es1"
    proof (cases "\<exists>e \<in> set es. name e = kind @ '':'' @ a \<and> entityType e = kind")
      case True
      then obtain e where "e \<in> set es" "name e = kind @ '':'' @ a" by blast
      moreover have "es1 = es" unfolding es1_def using True by (simp only: if_True)
      ultimately show ?thesis by (metis imageI)
    next
      case False
      then have "es1 = es @ [\<lparr>name = kind @ '':'' @ a, entityType = kind,
                     observations = [''A '' @ a @ '' '' @ kind @ '' value'']\<rparr>]"
        unfolding es1_def by (simp only: if_False)
      then show ?thesis by simp
    qed
    moreover obtain new where "seedValues kind vs es1 = es1 @ new"
      using seedValues_extends [of kind vs es1] by blast
    ultimately show ?thesis using s True by auto
  next
    case False
    then have "v \<in> set vs" using Cons.prems by simp
    from Cons.IH [OF this, of es1] show ?thesis using s by simp
  qed
qed

lemma seedValues_keeps: "set es \<subseteq> set (seedValues kind vs es)"
  using seedValues_extends [of kind vs es] by auto

lemma storeSeeded_names:
  "''A'' \<in> set (entityNames (loaded storeSeeded))"
  "''status:'' @ ''draft'' \<in> set (entityNames (loaded storeSeeded))"
proof -
  have e: "entities (loaded storeSeeded)
     = seedValues ''priority'' VALID_PRIORITY_VALUES
         (seedValues ''status'' VALID_STATUS_VALUES [entA, entB])"
    by (simp add: storeSeeded_def initialize_entities createEntities_AB)
  have "entA \<in> set (entities (loaded storeSeeded))"
    unfolding e using seedValues_keeps [of "[entA, entB]" "''status''" VALID_STATUS_VALUES]
      seedValues_keeps [of "seedValues ''status'' VALID_STATUS_VALUES [entA, entB]"
        "''priority''" VALID_PRIORITY_VALUES]
    by auto
  then have "name entA \<in> name ` set (entities (loaded storeSeeded))" by (rule imageI)
  then show "''A'' \<in> set (entityNames (loaded storeSeeded))"
    by (simp add: entityNames_def entA_def)
  have "''draft'' \<in> set VALID_STATUS_VALUES" by (simp add: VALID_STATUS_VALUES_def)
  from seedValues_has_name [OF this, of "''status''" "[entA, entB]"]
  have "''status'' @ '':'' @ ''draft''
      \<in> name ` set (seedValues ''status'' VALID_STATUS_VALUES [entA, entB])" .
  then have "''status'' @ '':'' @ ''draft'' \<in> name ` set (entities (loaded storeSeeded))"
    unfolding e
    using seedValues_keeps [of "seedValues ''status'' VALID_STATUS_VALUES [entA, entB]"
        "''priority''" VALID_PRIORITY_VALUES]
    by blast
  then show "''status:'' @ ''draft'' \<in> set (entityNames (loaded storeSeeded))"
    by (simp add: entityNames_def)
qed

lemma reachableGuarded_storeWithStatus: "reachableGuarded storeWithStatus"
proof -
  have 1: "reachableGuarded (snd (createEntities [entA, entB] Absent))"
    by (rule reachableGuarded.createEntities [OF reachableGuarded.start])
       (simp add: entA_def entB_def)
  have "reservedTyped (loaded (snd (createEntities [entA, entB] Absent)))"
    unfolding createEntities_AB by (auto simp add: reservedTyped_def entA_def entB_def)
  from reachableGuarded.initializeStatusAndPriority [OF 1 this]
  have 2: "reachableGuarded storeSeeded" by (simp add: storeSeeded_def)
  show ?thesis
    unfolding storeWithStatus_def
    by (rule reachableGuarded.setEntityStatus [OF 2 storeSeeded_names])
qed

theorem guarded_reachable_wellFormed_witness:
  "reachableGuarded storeWithStatus \<and> wellFormed (loaded storeWithStatus)
   \<and> edgesOf ''has_status'' ''A'' (loaded storeWithStatus)
       = [\<lparr>from_r = ''A'', to_r = ''status:draft'', relationType = ''has_status''\<rparr>]"
proof -
  have "''draft'' \<in> set VALID_STATUS_VALUES" by (simp add: VALID_STATUS_VALUES_def)
  from setEntityStatus_valid(3) [OF this, of "''A''" "''A''" storeSeeded]
  have "edgesOf ''has_status'' ''A'' (loaded storeWithStatus)
       = [\<lparr>from_r = ''A'', to_r = ''status:draft'', relationType = ''has_status''\<rparr>]"
    by (simp add: storeWithStatus_def)
  then show ?thesis
    using guarded_reachable_wellFormed [OF reachableGuarded_storeWithStatus]
      reachableGuarded_storeWithStatus by simp
qed

lemma setEntityStatus_dangling:
  "loaded (snd (setEntityStatus ''X'' ''draft'' Absent))
     = \<lparr>entities = [], relations =
         [\<lparr>from_r = ''X'', to_r = ''status:draft'', relationType = ''has_status''\<rparr>]\<rparr>"
  by (simp add: setEntityStatus_def VALID_STATUS_VALUES_def Let_def loaded_def empty_graph_def
      saveGraph_def)

lemma createEntities_twice_in_batch:
  "loaded (snd (createEntities [entA, entA2] Absent))
     = \<lparr>entities = [entA, entA2], relations = []\<rparr>"
  by (simp add: createEntities_def firstInvalidEntityType_def entA_def entA2_def
      validateEntityType_def VALID_ENTITY_TYPES_def Let_def entityNames_def saveGraph_def
      loaded_def empty_graph_def)

lemma createEntities_reserved:
  "snd (createEntities [entReserved] Absent)
     = Stored \<lparr>entities = [entReserved], relations = []\<rparr>"
  by (simp add: createEntities_def firstInvalidEntityType_def entReserved_def
      validateEntityType_def VALID_ENTITY_TYPES_def Let_def entityNames_def saveGraph_def
      loaded_def empty_graph_def)

lemma seedValues_has_typed:
  "v \<in> set vs \<Longrightarrow>
     \<exists>e \<in> set (seedValues kind vs es). name e = kind @ '':'' @ v \<and> entityType e = kind"
proof (induction vs arbitrary: es)
  case Nil
  then show ?case by simp
next
  case (Cons a vs)
  define es1 where "es1 = (if \<exists>e \<in> set es. name e = kind @ '':'' @ a \<and> entityType e = kind then es
        else es @ [\<lparr>name = kind @ '':'' @ a, entityType = kind,
                     observations = [''A '' @ a @ '' '' @ kind @ '' value'']\<rparr>])"
  have s: "seedValues kind (a # vs) es = seedValues kind vs es1"
    by (simp add: es1_def)
  show ?case
  proof (cases "v = a")
    case True
    have "\<exists>e \<in> set es1. name e = kind @ '':'' @ a \<and> entityType e = kind"
    proof (cases "\<exists>e \<in> set es. name e = kind @ '':'' @ a \<and> entityType e = kind")
      case True
      moreover have "es1 = es" unfolding es1_def using True by (simp only: if_True)
      ultimately show ?thesis by simp
    next
      case False
      then have "es1 = es @ [\<lparr>name = kind @ '':'' @ a, entityType = kind,
                     observations = [''A '' @ a @ '' '' @ kind @ '' value'']\<rparr>]"
        unfolding es1_def by (simp only: if_False)
      then show ?thesis by simp
    qed
    then show ?thesis
      unfolding s using seedValues_keeps [of es1 kind vs] True by blast
  next
    case False
    then have "v \<in> set vs" using Cons.prems by simp
    from Cons.IH [OF this, of es1] show ?thesis unfolding s .
  qed
qed

lemma initialize_duplicates:
  "\<not> uniqueNames (loaded (initializeStatusAndPriority (snd (createEntities [entReserved] Absent))))"
proof -
  define es1 where "es1 = seedValues ''status'' VALID_STATUS_VALUES [entReserved]"
  have "''draft'' \<in> set VALID_STATUS_VALUES" by (simp add: VALID_STATUS_VALUES_def)
  from seedValues_has_typed [OF this, of "''status''" "[entReserved]"]
  obtain e where e: "e \<in> set es1" "name e = ''status'' @ '':'' @ ''draft''"
    "entityType e = ''status''"
    unfolding es1_def by blast
  obtain new where n: "es1 = [entReserved] @ new"
    unfolding es1_def using seedValues_extends [of "''status''" VALID_STATUS_VALUES "[entReserved]"]
    by blast
  have "e \<noteq> entReserved" using e(3) by (auto simp: entReserved_def)
  then have "e \<in> set new" using e(1) n by simp
  then have "name e \<in> name ` set new" by (rule imageI)
  then have "name entReserved \<in> set (map name new)"
    using e(2) by (simp add: entReserved_def)
  then have nd: "\<not> distinct (map name es1)" unfolding n by simp
  obtain new2 where "seedValues ''priority'' VALID_PRIORITY_VALUES es1 = es1 @ new2"
    using seedValues_extends [of "''priority''" VALID_PRIORITY_VALUES es1] by blast
  then have "\<not> distinct (map name (seedValues ''priority'' VALID_PRIORITY_VALUES es1))"
    using nd by simp
  then show ?thesis
    unfolding createEntities_reserved
    by (simp add: uniqueNames_def entityNames_def initialize_entities es1_def)
qed

text \<open>
  Claim C2 as stated fails: a setter called on the empty store leaves a relation whose
  endpoints name no entity; a \<open>createEntities\<close> batch that names an entity twice inserts
  both; and \<open>initializeStatusAndPriority\<close> adds \<open>status:draft\<close> beside an entity of that name
  and of another type.
\<close>

theorem reachable_not_wellFormed_counterexample:
  "reachable (snd (setEntityStatus ''X'' ''draft'' Absent))
   \<and> \<not> noDangling (loaded (snd (setEntityStatus ''X'' ''draft'' Absent)))
   \<and> \<not> wellFormed (loaded (snd (setEntityStatus ''X'' ''draft'' Absent)))
   \<and> reachable (snd (createEntities [entA, entA2] Absent))
   \<and> \<not> uniqueNames (loaded (snd (createEntities [entA, entA2] Absent)))
   \<and> \<not> wellFormed (loaded (snd (createEntities [entA, entA2] Absent)))
   \<and> reachable (initializeStatusAndPriority (snd (createEntities [entReserved] Absent)))
   \<and> \<not> uniqueNames
         (loaded (initializeStatusAndPriority (snd (createEntities [entReserved] Absent))))
   \<and> \<not> wellFormed
         (loaded (initializeStatusAndPriority (snd (createEntities [entReserved] Absent))))"
proof -
  have 1: "\<not> noDangling (loaded (snd (setEntityStatus ''X'' ''draft'' Absent)))"
    unfolding setEntityStatus_dangling by (simp add: noDangling_def entityNames_def)
  have 2: "\<not> uniqueNames (loaded (snd (createEntities [entA, entA2] Absent)))"
    unfolding createEntities_twice_in_batch
    by (simp add: uniqueNames_def entityNames_def entA_def entA2_def)
  show ?thesis
    using 1 2 initialize_duplicates
    by (simp add: wellFormed_def reachable.intros)
qed

section \<open>Searching\<close>


lemma includes_iff: "includes_str s t \<longleftrightarrow> (\<exists>ps ss. s = ps @ t @ ss)"
  by (simp add: includes_str_def sublist_def)

lemma includes_empty [simp]: "includes_str s []"
  by (simp add: includes_str_def)

lemma matchesTerm_iff:
  "matchesTerm e t \<longleftrightarrow>
     sublist t (toLowerCase (name e)) \<or> sublist t (toLowerCase (entityType e))
     \<or> (\<exists>ob \<in> set (observations e). sublist t (toLowerCase ob))"
  by (auto simp: matchesTerm_def includes_str_def)

lemma matchesTerm_empty [simp]: "matchesTerm e []"
  by (simp add: matchesTerm_def)

lemma searchNodes_entities:
  "entities (searchNodes q st)
     = filter (\<lambda>e. \<exists>e' \<in> set (entities (loaded st)).
                  matchesAllTerms (splitWhitespace (toLowerCase q)) e' \<and> name e' = name e)
         (entities (loaded st))"
proof -
  have h: "(name e \<in> set (map name (filter (matchesAllTerms terms) es)))
       = (\<exists>e' \<in> set es. matchesAllTerms terms e' \<and> name e' = name e)" for e terms es
    by (auto simp: image_iff)
  show ?thesis
    unfolding searchNodes_def Let_def by (simp only: h KnowledgeGraph.select_convs)
qed

lemma searchNodes_relations:
  "relations (searchNodes q st)
     = filter (\<lambda>r. from_r r \<in> name ` set (entities (searchNodes q st))
                  \<and> to_r r \<in> name ` set (entities (searchNodes q st)))
         (relations (loaded st))"
proof -
  have "name ` set (entities (searchNodes q st))
      = name ` set (filter (matchesAllTerms (splitWhitespace (toLowerCase q))) (entities (loaded st)))"
    by (auto simp: searchNodes_def Let_def)
  then show ?thesis
    by (simp add: searchNodes_def Let_def)
qed

lemma searchNodes_unique:
  assumes "uniqueNames (loaded st)"
  shows "entities (searchNodes q st)
     = filter (matchesAllTerms (splitWhitespace (toLowerCase q))) (entities (loaded st))"
proof -
  have inj: "inj_on name (set (entities (loaded st)))"
    using assms by (simp add: uniqueNames_def entityNames_def distinct_map)
  show ?thesis
    unfolding searchNodes_entities
  proof (rule filter_cong [OF refl])
    fix e assume e: "e \<in> set (entities (loaded st))"
    show "(\<exists>e' \<in> set (entities (loaded st)).
             matchesAllTerms (splitWhitespace (toLowerCase q)) e' \<and> name e' = name e)
          = matchesAllTerms (splitWhitespace (toLowerCase q)) e"
      using e inj by (auto dest: inj_onD)
  qed
qed

text \<open>
  Claim C6, as amended. \<open>searchNodes\<close> lower-cases the query and splits it at white space;
  an entity matches when every piece is a contiguous part of its lower-cased name, of its
  lower-cased type or of one of its lower-cased observations. The result holds, in the
  order of the graph, the entities that bear the name of a matching entity, and the
  relations whose two endpoints are names of returned entities. When no two entities of
  the graph share a name, the entities returned are exactly the matching ones.
\<close>

theorem searchNodes_induced_subgraph:
  "entities (searchNodes q st)
     = filter (\<lambda>e. \<exists>e' \<in> set (entities (loaded st)).
                  matchesAllTerms (splitWhitespace (toLowerCase q)) e' \<and> name e' = name e)
         (entities (loaded st))
   \<and> relations (searchNodes q st)
     = filter (\<lambda>r. from_r r \<in> name ` set (entities (searchNodes q st))
                  \<and> to_r r \<in> name ` set (entities (searchNodes q st)))
         (relations (loaded st))
   \<and> (uniqueNames (loaded st) \<longrightarrow>
        entities (searchNodes q st)
          = filter (matchesAllTerms (splitWhitespace (toLowerCase q))) (entities (loaded st)))
   \<and> (matchesAllTerms terms e \<longleftrightarrow>
        (\<forall>t \<in> set terms.
           sublist t (toLowerCase (name e)) \<or> sublist t (toLowerCase (entityType e))
           \<or> (\<exists>ob \<in> set (observations e). sublist t (toLowerCase ob))))"
  using searchNodes_entities [of q st] searchNodes_relations [of q st]
    searchNodes_unique [of st q]
  by (simp add: matchesAllTerms_def matchesTerm_iff)

lemma toLowerCase_examples:
  "toLowerCase ''alpha beta'' = ''alpha beta''" "toLowerCase ''first'' = ''first''"
  "toLowerCase ''Alpha'' = ''alpha''" "toLowerCase ''Beta'' = ''beta''"
  "toLowerCase ''code'' = ''code''" "toLowerCase ''mentions beta'' = ''mentions beta''"
  "toLowerCase ''A'' = ''a''" "toLowerCase ''theme'' = ''theme''"
  "toLowerCase ''other'' = ''other''"
  by (simp_all add: toLowerCase_def toLowerChar_def upperCaseLetters_def lowerCaseLetters_def)

lemma terms_examples:
  "splitWhitespace (toLowerCase ''alpha beta'') = [''alpha'', ''beta'']"
  "splitWhitespace (toLowerCase ''first'') = [''first'']"
  unfolding toLowerCase_examples by (simp_all add: isSpace_def)

lemma terms_no_break_space:
  "splitWhitespace (toLowerCase (''ALPHA'' @ [CHR 0xA0] @ ''Beta'')) = [''alpha'', ''beta'']"
  "toLowerCase [CHR 0xC9, CHR 0xD7] = [CHR 0xE9, CHR 0xD7]"
  "set (splitWhitespace (toLowerCase [CHR 0xA0])) = {[]}"
proof -
  have "toLowerCase (''ALPHA'' @ [CHR 0xA0] @ ''Beta'') = ''alpha'' @ [CHR 0xA0] @ ''beta''"
    by (simp add: toLowerCase_def toLowerChar_def upperCaseLetters_def lowerCaseLetters_def)
  then show "splitWhitespace (toLowerCase (''ALPHA'' @ [CHR 0xA0] @ ''Beta'')) = [''alpha'', ''beta'']"
    by (simp add: isSpace_def)
  show "toLowerCase [CHR 0xC9, CHR 0xD7] = [CHR 0xE9, CHR 0xD7]"
    by (simp add: toLowerCase_def toLowerChar_def upperCaseLetters_def lowerCaseLetters_def)
  have "toLowerCase [CHR 0xA0] = [CHR 0xA0]"
    by (simp add: toLowerCase_def toLowerChar_def upperCaseLetters_def lowerCaseLetters_def)
  then show "set (splitWhitespace (toLowerCase [CHR 0xA0])) = {[]}"
    by (simp add: isSpace_def)
qed

lemma matches_Alpha: "matchesAllTerms [''alpha'', ''beta''] entAlpha"
  by (simp add: matchesAllTerms_def matchesTerm_def includes_str_def entAlpha_def
      toLowerCase_examples sublist_code)

lemma matches_Beta: "\<not> matchesAllTerms [''alpha'', ''beta''] entBeta"
  by (simp add: matchesAllTerms_def matchesTerm_def includes_str_def entBeta_def
      toLowerCase_examples sublist_code)

lemma matches_first: "matchesAllTerms [''first''] entA" "\<not> matchesAllTerms [''first''] entA2"
  by (simp_all add: matchesAllTerms_def matchesTerm_def includes_str_def entA_def entA2_def
      toLowerCase_examples sublist_code)

theorem searchNodes_induced_subgraph_witness:
  "uniqueNames (loaded storeAlphaBeta)
   \<and> entities (searchNodes ''alpha beta'' storeAlphaBeta) = [entAlpha]
   \<and> relations (searchNodes ''alpha beta'' storeAlphaBeta)
       = [\<lparr>from_r = ''Alpha'', to_r = ''Alpha'', relationType = ''related_to''\<rparr>]
   \<and> entities (searchNodes (''ALPHA'' @ [CHR 0xA0] @ ''Beta'') storeAlphaBeta) = [entAlpha]"
proof -
  have u: "uniqueNames (loaded storeAlphaBeta)"
    by (simp add: uniqueNames_def entityNames_def storeAlphaBeta_def entAlpha_def entBeta_def)
  note t = searchNodes_induced_subgraph [of "''alpha beta''" storeAlphaBeta "[]" entAlpha]
  from t u have e: "entities (searchNodes ''alpha beta'' storeAlphaBeta)
      = filter (matchesAllTerms (splitWhitespace (toLowerCase ''alpha beta'')))
          (entities (loaded storeAlphaBeta))" by blast
  have e': "entities (searchNodes ''alpha beta'' storeAlphaBeta) = [entAlpha]"
    unfolding e terms_examples
    by (simp add: storeAlphaBeta_def matches_Alpha matches_Beta)
  from t have "relations (searchNodes ''alpha beta'' storeAlphaBeta)
     = filter (\<lambda>r. from_r r \<in> name ` set (entities (searchNodes ''alpha beta'' storeAlphaBeta))
                  \<and> to_r r \<in> name ` set (entities (searchNodes ''alpha beta'' storeAlphaBeta)))
         (relations (loaded storeAlphaBeta))" by blast
  then have r: "relations (searchNodes ''alpha beta'' storeAlphaBeta)
       = [\<lparr>from_r = ''Alpha'', to_r = ''Alpha'', relationType = ''related_to''\<rparr>]"
    unfolding e' by (simp add: storeAlphaBeta_def entAlpha_def)
  note t2 = searchNodes_induced_subgraph [of "''ALPHA'' @ [CHR 0xA0] @ ''Beta''" storeAlphaBeta
      "[]" entAlpha]
  from t2 u have "entities (searchNodes (''ALPHA'' @ [CHR 0xA0] @ ''Beta'') storeAlphaBeta)
      = filter (matchesAllTerms (splitWhitespace (toLowerCase (''ALPHA'' @ [CHR 0xA0] @ ''Beta''))))
          (entities (loaded storeAlphaBeta))" by blast
  then have n: "entities (searchNodes (''ALPHA'' @ [CHR 0xA0] @ ''Beta'') storeAlphaBeta) = [entAlpha]"
    unfolding terms_no_break_space
    by (simp add: storeAlphaBeta_def matches_Alpha matches_Beta)
  from u e' r n show ?thesis by (intro conjI)
qed

text \<open>
  Claim C6 as stated fails on a graph in which two entities share a name (\<open>createEntities\<close>
  inserts both from one batch): the query \<open>first\<close> matches only the first of them, and
  both are returned.
\<close>

theorem searchNodes_shared_name_counterexample:
  "reachable (snd (createEntities [entA, entA2] Absent))
   \<and> entities (searchNodes ''first'' (snd (createEntities [entA, entA2] Absent))) = [entA, entA2]
   \<and> \<not> matchesAllTerms (splitWhitespace (toLowerCase ''first'')) entA2"
proof -
  have "entities (searchNodes ''first'' (snd (createEntities [entA, entA2] Absent)))
      = filter (\<lambda>e. \<exists>e' \<in> set [entA, entA2].
                  matchesAllTerms [''first''] e' \<and> name e' = name e) [entA, entA2]"
    unfolding searchNodes_entities terms_examples createEntities_twice_in_batch by simp
  also have "\<dots> = [entA, entA2]"
    using matches_first by (auto simp: entA_def entA2_def)
  finally show ?thesis
    unfolding terms_examples using matches_first
    by (simp add: reachable.intros)
qed

section \<open>White space in queries\<close>


lemma splitWhitespace_nonempty: "splitWhitespace s \<noteq> []"
  by (induction s rule: splitWhitespace.induct) (auto split: list.splits)

lemma toLowerChar_space: "isSpace c \<Longrightarrow> toLowerChar c = c"
proof -
  assume "isSpace c"
  then consider "c = CHR '' ''" | "c = CHR 0x09" | "c = CHR 0x0A" | "c = CHR 0x0B"
    | "c = CHR 0x0C" | "c = CHR 0x0D" | "c = CHR 0xA0"
    by (auto simp: isSpace_def)
  then show ?thesis
    by cases (simp_all add: toLowerChar_def upperCaseLetters_def lowerCaseLetters_def)
qed

lemma toLowerCase_spaces: "\<forall>c \<in> set w. isSpace c \<Longrightarrow> toLowerCase w = w"
  by (induction w) (simp_all add: toLowerCase_def toLowerChar_space)

lemma toLowerCase_append: "toLowerCase (a @ b) = toLowerCase a @ toLowerCase b"
  by (simp add: toLowerCase_def)

lemma dropWhile_spaces: "\<forall>c \<in> set w. isSpace c \<Longrightarrow> dropWhile isSpace (w @ s) = dropWhile isSpace s"
  by (induction w) simp_all

lemma splitWhitespace_spaces:
  assumes "\<forall>c \<in> set w. isSpace c"
  shows "set (splitWhitespace w) = {[]}"
proof (cases w)
  case Nil
  then show ?thesis by simp
next
  case (Cons c cs)
  have d: "dropWhile isSpace cs = []" using Cons assms by simp
  have "splitWhitespace w = [] # splitWhitespace (dropWhile isSpace cs)"
    using Cons assms by simp
  then have "splitWhitespace w = [[], []]" unfolding d by simp
  then show ?thesis by simp
qed

lemma splitWhitespace_dropWhile:
  "insert [] (set (splitWhitespace (dropWhile isSpace s))) = insert [] (set (splitWhitespace s))"
proof (cases s)
  case Nil
  then show ?thesis by simp
next
  case (Cons c cs)
  then show ?thesis by (cases "isSpace c") simp_all
qed

lemma splitWhitespace_leading:
  assumes "\<forall>c \<in> set w. isSpace c"
  shows "insert [] (set (splitWhitespace (w @ s))) = insert [] (set (splitWhitespace s))"
proof (cases w)
  case Nil
  then show ?thesis by simp
next
  case (Cons c cs)
  then have "splitWhitespace (w @ s) = [] # splitWhitespace (dropWhile isSpace s)"
    using assms dropWhile_spaces [of cs s] by simp
  then show ?thesis using splitWhitespace_dropWhile [of s] by simp
qed

lemma splitWhitespace_trailing_exact:
  assumes "\<forall>c \<in> set w. isSpace c" and "w \<noteq> []"
  shows "splitWhitespace (s @ w)
     = (if s \<noteq> [] \<and> isSpace (last s) then splitWhitespace s else splitWhitespace s @ [[]])"
proof (induction s rule: splitWhitespace.induct)
  case 1
  obtain c cs where w: "w = c # cs" using assms(2) by (cases w) auto
  have d: "dropWhile isSpace cs = []" using w assms(1) by simp
  have "splitWhitespace w = [] # splitWhitespace (dropWhile isSpace cs)"
    using w assms(1) by simp
  then have "splitWhitespace w = [[], []]" unfolding d by simp
  then show ?case by simp
next
  case (2 c cs)
  show ?case
  proof (cases "isSpace c")
    case True
    define d where "d = dropWhile isSpace cs"
    have l1: "splitWhitespace ((c # cs) @ w) = [] # splitWhitespace (dropWhile isSpace (cs @ w))"
      using True by simp
    have r1: "splitWhitespace (c # cs) = [] # splitWhitespace d"
      using True by (simp add: d_def)
    show ?thesis
    proof (cases "d = []")
      case dnil: True
      then have all: "\<forall>x \<in> set cs. isSpace x"
        unfolding d_def by (simp add: dropWhile_eq_Nil_conv)
      have l2: "dropWhile isSpace (cs @ w) = []"
        using all assms(1) by (simp add: dropWhile_eq_Nil_conv)
      have "last (c # cs) \<in> set (c # cs)" by (rule last_in_set) simp
      then have sp: "isSpace (last (c # cs))" using all True by auto
      have "splitWhitespace ((c # cs) @ w) = splitWhitespace (c # cs)"
        unfolding l1 l2 r1 dnil ..
      then show ?thesis using sp by (simp only: if_True simp_thms list.simps)
    next
      case dne: False
      then have ex: "\<exists>x \<in> set cs. \<not> isSpace x"
        unfolding d_def by (simp add: dropWhile_eq_Nil_conv)
      then obtain x where "x \<in> set cs" "\<not> isSpace x" by blast
      then have dw: "dropWhile isSpace (cs @ w) = d @ w"
        unfolding d_def by (rule dropWhile_append1)
      have "cs \<noteq> []" using ex by auto
      have "cs = takeWhile isSpace cs @ d" unfolding d_def by simp
      then have "last cs = last d" using dne by (metis last_appendR)
      then have l: "last (c # cs) = last d" using \<open>cs \<noteq> []\<close> by simp
      have ih: "splitWhitespace (d @ w)
         = (if d \<noteq> [] \<and> isSpace (last d) then splitWhitespace d else splitWhitespace d @ [[]])"
        using "2.IH"(1) [OF True] unfolding d_def .
      show ?thesis
      proof (cases "isSpace (last d)")
        case True
        have "splitWhitespace ((c # cs) @ w) = splitWhitespace (c # cs)"
          unfolding l1 dw ih r1 using True dne by simp
        then show ?thesis using True unfolding l by (simp only: if_True simp_thms list.simps)
      next
        case False
        have "splitWhitespace ((c # cs) @ w) = splitWhitespace (c # cs) @ [[]]"
          unfolding l1 dw ih r1 using False by simp
        then show ?thesis using False unfolding l by (simp only: if_False simp_thms)
      qed
    qed
  next
    case False
    obtain t ts where sp: "splitWhitespace cs = t # ts"
      using splitWhitespace_nonempty [of cs] by (cases "splitWhitespace cs") auto
    have l1: "splitWhitespace ((c # cs) @ w)
        = (case splitWhitespace (cs @ w) of t # ts \<Rightarrow> (c # t) # ts | [] \<Rightarrow> [[c]])"
      using False by simp
    have r1: "splitWhitespace (c # cs) = (c # t) # ts"
      using False sp by simp
    have ih: "splitWhitespace (cs @ w)
       = (if cs \<noteq> [] \<and> isSpace (last cs) then splitWhitespace cs else splitWhitespace cs @ [[]])"
      using "2.IH"(2) [OF False] .
    show ?thesis
    proof (cases "cs \<noteq> [] \<and> isSpace (last cs)")
      case True
      then have la: "isSpace (last (c # cs))" by simp
      have "splitWhitespace ((c # cs) @ w) = splitWhitespace (c # cs)"
        unfolding l1 ih r1 using True sp by simp
      then show ?thesis using la by (simp only: if_True simp_thms list.simps)
    next
      case nsp: False
      then have la: "\<not> isSpace (last (c # cs))" using False by auto
      have "splitWhitespace ((c # cs) @ w) = splitWhitespace (c # cs) @ [[]]"
        unfolding l1 ih r1 using nsp sp by simp
      then show ?thesis using la by (simp only: if_False simp_thms)
    qed
  qed
qed

lemma splitWhitespace_trailing:
  assumes "\<forall>c \<in> set w. isSpace c"
  shows "insert [] (set (splitWhitespace (s @ w))) = insert [] (set (splitWhitespace s))"
proof (cases "w = []")
  case True
  then show ?thesis by simp
next
  case False
  show ?thesis
    unfolding splitWhitespace_trailing_exact [OF assms False] by auto
qed

lemma matchesAllTerms_insert_empty:
  "matchesAllTerms terms e \<longleftrightarrow> (\<forall>t \<in> insert [] (set terms). matchesTerm e t)"
  by (simp add: matchesAllTerms_def)

lemma matchesAllTerms_cong:
  assumes "insert [] (set terms) = insert [] (set terms')"
  shows "matchesAllTerms terms = matchesAllTerms terms'"
proof
  fix e
  show "matchesAllTerms terms e = matchesAllTerms terms' e"
    unfolding matchesAllTerms_insert_empty [of terms] matchesAllTerms_insert_empty [of terms']
    using assms by simp
qed

lemma searchNodes_cong:
  assumes "insert [] (set (splitWhitespace (toLowerCase q)))
         = insert [] (set (splitWhitespace (toLowerCase q')))"
  shows "searchNodes q st = searchNodes q' st"
  unfolding searchNodes_def Let_def matchesAllTerms_cong [OF assms] ..

lemma searchNodes_padded:
  assumes "\<forall>c \<in> set w1. isSpace c" and "\<forall>c \<in> set w2. isSpace c"
  shows "searchNodes (w1 @ q @ w2) st = searchNodes q st"
proof (rule searchNodes_cong)
  have "toLowerCase (w1 @ q @ w2) = w1 @ (toLowerCase q @ w2)"
    using assms by (simp add: toLowerCase_append toLowerCase_spaces)
  then show "insert [] (set (splitWhitespace (toLowerCase (w1 @ q @ w2))))
         = insert [] (set (splitWhitespace (toLowerCase q)))"
    using splitWhitespace_leading [OF assms(1), of "toLowerCase q @ w2"]
      splitWhitespace_trailing [OF assms(2), of "toLowerCase q"]
    by simp
qed

lemma searchNodes_blank:
  assumes "\<forall>c \<in> set ws. isSpace c"
  shows "entities (searchNodes ws st) = entities (loaded st)"
    and "relations (searchNodes ws st)
       = filter (\<lambda>r. from_r r \<in> set (entityNames (loaded st))
                    \<and> to_r r \<in> set (entityNames (loaded st))) (relations (loaded st))"
proof -
  have "set (splitWhitespace (toLowerCase ws)) = {[]}"
    using assms by (simp add: toLowerCase_spaces splitWhitespace_spaces)
  then have all: "matchesAllTerms (splitWhitespace (toLowerCase ws)) e" for e
    by (simp add: matchesAllTerms_def)
  then have f: "filter (matchesAllTerms (splitWhitespace (toLowerCase ws))) es = es" for es
    by simp
  show "entities (searchNodes ws st) = entities (loaded st)"
    unfolding searchNodes_def Let_def f by simp
  show "relations (searchNodes ws st)
       = filter (\<lambda>r. from_r r \<in> set (entityNames (loaded st))
                    \<and> to_r r \<in> set (entityNames (loaded st))) (relations (loaded st))"
    unfolding searchNodes_def Let_def f entityNames_def by simp
qed

lemma searchNodes_blank_whole:
  assumes "\<forall>c \<in> set ws. isSpace c" and "noDangling (loaded st)"
  shows "searchNodes ws st = loaded st"
proof -
  have "filter (\<lambda>r. from_r r \<in> set (entityNames (loaded st))
                    \<and> to_r r \<in> set (entityNames (loaded st))) (relations (loaded st))
        = relations (loaded st)"
    using assms(2) by (simp add: noDangling_def)
  then show ?thesis
    using searchNodes_blank [OF assms(1), of st] by simp
qed

text \<open>
  Claim C10, as amended. A query that is empty or holds white space only returns every
  entity and the relations whose two endpoints name entities, which is the whole graph
  when no relation dangles. White space before and after a query never changes the
  result.
\<close>

theorem searchNodes_blank_query:
  "((\<forall>c \<in> set ws. isSpace c) \<longrightarrow>
      entities (searchNodes ws st) = entities (loaded st)
      \<and> relations (searchNodes ws st)
          = filter (\<lambda>r. from_r r \<in> set (entityNames (loaded st))
                       \<and> to_r r \<in> set (entityNames (loaded st))) (relations (loaded st))
      \<and> (noDangling (loaded st) \<longrightarrow> searchNodes ws st = loaded st))
   \<and> ((\<forall>c \<in> set w1. isSpace c) \<and> (\<forall>c \<in> set w2. isSpace c) \<longrightarrow>
        searchNodes (w1 @ q @ w2) st = searchNodes q st)"
  using searchNodes_blank [of ws st] searchNodes_blank_whole [of ws st]
    searchNodes_padded [of w1 w2 q st]
  by blast

lemma blank_examples:
  "\<forall>c \<in> set ''  ''. isSpace c" "\<forall>c \<in> set '' ''. isSpace c" "\<forall>c \<in> set ''''. isSpace c"
  "\<forall>c \<in> set [CHR 0xA0, CHR 0x09]. isSpace c"
  by (simp_all add: isSpace_def)

lemma noDangling_storeAlphaBeta: "noDangling (loaded storeAlphaBeta)"
  by (simp add: noDangling_def storeAlphaBeta_def entityNames_def entAlpha_def entBeta_def)

lemma searchNodes_alpha_beta:
  "entities (searchNodes ''alpha beta'' storeAlphaBeta) = [entAlpha]"
proof -
  have "uniqueNames (loaded storeAlphaBeta)"
    by (simp add: uniqueNames_def entityNames_def storeAlphaBeta_def entAlpha_def entBeta_def)
  from searchNodes_unique [OF this, of "''alpha beta''"] show ?thesis
    unfolding terms_examples
    by (simp add: storeAlphaBeta_def matches_Alpha matches_Beta)
qed

theorem searchNodes_blank_query_witness:
  "searchNodes ''  '' storeAlphaBeta = loaded storeAlphaBeta
   \<and> searchNodes [CHR 0xA0, CHR 0x09] storeAlphaBeta = loaded storeAlphaBeta
   \<and> searchNodes '' alpha beta  '' storeAlphaBeta = searchNodes ''alpha beta'' storeAlphaBeta
   \<and> entities (searchNodes '' alpha beta  '' storeAlphaBeta) = [entAlpha]"
proof -
  note t = searchNodes_blank_query [of "''  ''" storeAlphaBeta "'' ''" "''  ''" "''alpha beta''"]
  note t0 = searchNodes_blank_query [of "[CHR 0xA0, CHR 0x09]" storeAlphaBeta "[]" "[]" "[]"]
  from t0 blank_examples noDangling_storeAlphaBeta
  have 0: "searchNodes [CHR 0xA0, CHR 0x09] storeAlphaBeta = loaded storeAlphaBeta" by blast
  from t blank_examples noDangling_storeAlphaBeta
  have 1: "searchNodes ''  '' storeAlphaBeta = loaded storeAlphaBeta" by blast
  from t blank_examples
  have "searchNodes ('' '' @ ''alpha beta'' @ ''  '') storeAlphaBeta
      = searchNodes ''alpha beta'' storeAlphaBeta" by blast
  then have 2: "searchNodes '' alpha beta  '' storeAlphaBeta
      = searchNodes ''alpha beta'' storeAlphaBeta" by simp
  from 0 1 2 searchNodes_alpha_beta show ?thesis by simp
qed

lemma storeUnseeded_loaded:
  "loaded storeUnseeded = \<lparr>entities = [entA], relations =
      [\<lparr>from_r = ''A'', to_r = ''status:draft'', relationType = ''has_status''\<rparr>]\<rparr>"
proof -
  have c: "snd (createEntities [entA] Absent) = Stored \<lparr>entities = [entA], relations = []\<rparr>"
    by (simp add: createEntities_def firstInvalidEntityType_def entA_def
      validateEntityType_def VALID_ENTITY_TYPES_def Let_def entityNames_def saveGraph_def
      loaded_def empty_graph_def)
  have "''draft'' \<in> set VALID_STATUS_VALUES" by (simp add: VALID_STATUS_VALUES_def)
  from setEntityStatus_valid(2) [OF this, of "''A''" "Stored \<lparr>entities = [entA], relations = []\<rparr>"]
  show ?thesis unfolding storeUnseeded_def c by simp
qed

text \<open>
  Claim C10 as stated fails where a relation dangles: after \<open>setEntityStatus\<close> for an entity
  whose status entity was never created, the empty query returns the entity and not its
  \<open>has_status\<close> relation.
\<close>

theorem searchNodes_blank_counterexample:
  "reachable storeUnseeded
   \<and> relations (loaded storeUnseeded)
       = [\<lparr>from_r = ''A'', to_r = ''status:draft'', relationType = ''has_status''\<rparr>]
   \<and> searchNodes '''' storeUnseeded = \<lparr>entities = [entA], relations = []\<rparr>
   \<and> searchNodes '''' storeUnseeded \<noteq> loaded storeUnseeded"
proof -
  have r: "reachable storeUnseeded"
    unfolding storeUnseeded_def by (intro reachable.intros)
  have e: "entities (searchNodes '''' storeUnseeded) = [entA]"
    using searchNodes_blank(1) [of "''''" storeUnseeded] by (simp add: storeUnseeded_loaded)
  have "relations (searchNodes '''' storeUnseeded) = []"
    using searchNodes_blank(2) [of "''''" storeUnseeded]
    by (simp add: storeUnseeded_loaded entityNames_def entA_def)
  with e have s: "searchNodes '''' storeUnseeded = \<lparr>entities = [entA], relations = []\<rparr>"
    by (cases "searchNodes '''' storeUnseeded") simp
  show ?thesis
    using r s by (simp add: storeUnseeded_loaded)
qed

section \<open>Counting co-occurrences\<close>



lemma findTyped_None: "findTyped n t es = None \<longleftrightarrow> \<not> (\<exists>e \<in> set es. name e = n \<and> entityType e = t)"
  unfolding findTyped_def by (induction es) auto

lemma findTyped_isTyped: "(\<exists>e. findTyped n t (entities g) = Some e) \<longleftrightarrow> isTyped g t n"
  using findTyped_None [of n t "entities g"] by (auto simp: isTyped_def)


lemma tally_count:
  "map_option occCount (map_of (tally oc q m) k)
     = (if k = name oc
        then Some (case map_of m k of None \<Rightarrow> 1 | Some occ \<Rightarrow> occCount occ + 1)
        else map_option occCount (map_of m k))"
  by (induction m) auto


































section \<open>The timeline\<close>


lemma split_on_two_pieces:
  "sep \<in> set s \<Longrightarrow> \<exists>a b rest. split_on sep s = a # b # rest"
proof (induction s)
  case Nil
  then show ?case by simp
next
  case (Cons c cs)
  show ?case
  proof (cases "c = sep")
    case True
    obtain t ts where "split_on sep cs = t # ts"
      using split_on_nonempty [of sep cs] by (cases "split_on sep cs") auto
    then show ?thesis using True by simp
  next
    case False
    then have "sep \<in> set cs" using Cons.prems by auto
    from Cons.IH [OF this] obtain a b rest where "split_on sep cs = a # b # rest" by blast
    then show ?thesis using False by simp
  qed
qed

lemma isDateObservation_pieces:
  assumes "isDateObservation ob"
  shows "\<exists>a b rest. split_on CHR '':'' ob = a # b # rest"
proof -
  have "CHR '':'' \<in> set ob"
    using assms unfolding isDateObservation_def startsWith_def prefix_def by auto
  then show ?thesis by (rule split_on_two_pieces)
qed

lemma insort_key_pairs:
  assumes "\<forall>y \<in> set ys. snd y = f (fst y)"
  shows "map fst (insort_key snd (x, f x) ys) = insort_key f x (map fst ys)"
  using assms by (induction ys) auto

lemma insort_key_pairs_inv:
  assumes "\<forall>y \<in> set ys. snd y = f (fst y)"
  shows "\<forall>y \<in> set (insort_key snd (x, f x) ys). snd y = f (fst y)"
  using assms by (auto simp: set_insort_key)

lemma sort_key_pairs:
  "map fst (sort_key snd (map (\<lambda>x. (x, f x)) xs)) = sort_key f xs
   \<and> (\<forall>y \<in> set (sort_key snd (map (\<lambda>x. (x, f x)) xs)). snd y = f (fst y))"
proof (induction xs)
  case Nil
  then show ?case by simp
next
  case (Cons x xs)
  then show ?case
    using insort_key_pairs [of "sort_key snd (map (\<lambda>x. (x, f x)) xs)" f x]
      insort_key_pairs_inv [of "sort_key snd (map (\<lambda>x. (x, f x)) xs)" f x]
    by simp
qed

lemma collectData_names:
  "map name (collectData p dt es rs)
     = filter (\<lambda>n. \<exists>e \<in> set es. name e = n \<and> wantedType dt (entityType e))
         (map from_r (filter (\<lambda>r. relationType r = ''part_of'' \<and> to_r r = p) rs))"
proof (induction rs)
  case Nil
  then show ?case by simp
next
  case (Cons r rs)
  show ?case
  proof (cases "relationType r = ''part_of'' \<and> to_r r = p")
    case True
    show ?thesis
    proof (cases "find (\<lambda>e. name e = from_r r \<and> wantedType dt (entityType e)) es")
      case None
      then have "\<not> (\<exists>e \<in> set es. name e = from_r r \<and> wantedType dt (entityType e))"
        by (simp add: find_None_iff)
      then show ?thesis using True None Cons.IH by simp
    next
      case (Some e)
      then have "e \<in> set es \<and> name e = from_r r \<and> wantedType dt (entityType e)"
        by (auto simp: find_Some_iff)
      then show ?thesis using True Some Cons.IH by auto
    qed
  next
    case False
    then show ?thesis using Cons.IH by auto
  qed
qed

lemma collectData_members:
  "e \<in> set (collectData p dt es rs)
     \<Longrightarrow> e \<in> set es \<and> wantedType dt (entityType e)
         \<and> \<lparr>from_r = name e, to_r = p, relationType = ''part_of''\<rparr> \<in> set rs"
proof (induction rs)
  case Nil
  then show ?case by simp
next
  case (Cons r rs)
  show ?case
  proof (cases "relationType r = ''part_of'' \<and> to_r r = p")
    case True
    show ?thesis
    proof (cases "find (\<lambda>e. name e = from_r r \<and> wantedType dt (entityType e)) es")
      case None
      then show ?thesis using True Cons by simp
    next
      case (Some e')
      then have e': "e' \<in> set es \<and> name e' = from_r r \<and> wantedType dt (entityType e')"
        by (auto simp: find_Some_iff)
      have "r = \<lparr>from_r = name e', to_r = p, relationType = ''part_of''\<rparr>"
        using True e' by (cases r) auto
      then show ?thesis using True Some Cons e' by auto
    qed
  next
    case False
    then show ?thesis using Cons by auto
  qed
qed

lemma getChronologicalData_Inr:
  assumes "getChronologicalData parseDate p dt st = Inr res"
  shows "map tlEntity (timeline res)
       = sort_key (entityDate parseDate)
           (collectData p dt (entities (loaded st)) (relations (loaded st)))"
    and "map tlDate (timeline res) = map (entityDate parseDate) (map tlEntity (timeline res))"
    and "sorted (map tlDate (timeline res))"
proof -
  define ds where "ds = collectData p dt (entities (loaded st)) (relations (loaded st))"
  define sd where "sd = sort_key snd (map (\<lambda>entity. (entity, entityDate parseDate entity)) ds)"
  from assms obtain project where
    f: "findTyped p ''project'' (entities (loaded st)) = Some project"
    by (auto simp: getChronologicalData_def Let_def split: option.splits)
  have t: "timeline res = map (\<lambda>(entity, date).
             \<lparr>tlDate = date, tlEntity = entity,
               tlQuotes = collectContained (name entity) (entities (loaded st)) (relations (loaded st))\<rparr>) sd"
    using assms f unfolding sd_def ds_def by (auto simp: getChronologicalData_def Let_def)
  have e: "map tlEntity (timeline res) = map fst sd"
    unfolding t by (simp add: case_prod_beta comp_def)
  have d: "map tlDate (timeline res) = map snd sd"
    unfolding t by (simp add: case_prod_beta comp_def)
  from sort_key_pairs [of "entityDate parseDate" ds]
  have p1: "map fst sd = sort_key (entityDate parseDate) ds"
    and p2: "\<forall>y \<in> set sd. snd y = entityDate parseDate (fst y)"
    unfolding sd_def by simp_all
  show "map tlEntity (timeline res)
       = sort_key (entityDate parseDate)
           (collectData p dt (entities (loaded st)) (relations (loaded st)))"
    unfolding e p1 ds_def ..
  show "map tlDate (timeline res) = map (entityDate parseDate) (map tlEntity (timeline res))"
    unfolding e d using p2 by simp
  show "sorted (map tlDate (timeline res))"
    unfolding d sd_def by (rule sorted_sort_key)
qed

lemma getChronologicalData_returns:
  "(\<exists>res. getChronologicalData parseDate p dt st = Inr res) \<longleftrightarrow> isTyped (loaded st) ''project'' p"
proof -
  have "(\<exists>res. getChronologicalData parseDate p dt st = Inr res)
      \<longleftrightarrow> (\<exists>e. findTyped p ''project'' (entities (loaded st)) = Some e)"
    by (auto simp: getChronologicalData_def Let_def split: option.splits)
  then show ?thesis using findTyped_isTyped [of p "''project''" "loaded st"] by simp
qed

lemma entityDate_cases:
  "(find isDateObservation (observations e) = None \<longrightarrow> entityDate parseDate e = 0)
   \<and> (find isDateObservation (observations e) = Some ob \<longrightarrow>
        (\<exists>a piece rest. split_on CHR '':'' ob = a # piece # rest
           \<and> entityDate parseDate e = (case parseDate (trim piece) of Some t \<Rightarrow> t | None \<Rightarrow> 0)))"
proof (intro conjI impI)
  assume "find isDateObservation (observations e) = None"
  then show "entityDate parseDate e = 0" by (simp add: entityDate_def)
next
  assume s: "find isDateObservation (observations e) = Some ob"
  then have "isDateObservation ob" by (auto simp: find_Some_iff)
  from isDateObservation_pieces [OF this] obtain a piece rest where
    sp: "split_on CHR '':'' ob = a # piece # rest" by blast
  then have "entityDate parseDate e = (case parseDate (trim piece) of Some t \<Rightarrow> t | None \<Rightarrow> 0)"
    using s by (simp add: entityDate_def)
  with sp show "\<exists>a piece rest. split_on CHR '':'' ob = a # piece # rest
           \<and> entityDate parseDate e = (case parseDate (trim piece) of Some t \<Rightarrow> t | None \<Rightarrow> 0)"
    by blast
qed

lemma wantedType_cases:
  "(wantedType None t \<longleftrightarrow> t \<in> {''interview'', ''observation'', ''document''})
   \<and> (d \<noteq> [] \<longrightarrow> (wantedType (Some d) t \<longleftrightarrow> t = d))"
  by (auto simp: wantedType_def)

lemma trim_examples:
  "trim '' 2024-01-05'' = ''2024-01-05''" "trim '' 2024-01-01'' = ''2024-01-01''"
  by (simp_all add: trim_def isSpace_def)

lemma date_observation_examples:
  "isDateObservation ''Date: 2024-01-05''" "isDateObservation ''Date: 2024-01-01''"
  "\<not> isDateObservation ''at the office''" "\<not> isDateObservation ''no date given''"
  by (simp_all add: isDateObservation_def startsWith_def)

lemma entityDate_examples:
  "parseDate ''2024-01-05'' = Some t5 \<Longrightarrow> entityDate parseDate entI1 = t5"
  "parseDate ''2024-01-01'' = Some t1 \<Longrightarrow> entityDate parseDate entI2 = t1"
  "entityDate parseDate entI3 = 0"
  by (simp_all add: entityDate_def entI1_def entI2_def entI3_def date_observation_examples
      trim_examples)

lemma collectData_example:
  "collectData ''P'' None [entP, entI1, entI2, entI3]
     [partOf ''I1'' ''P'', partOf ''I2'' ''P'', partOf ''I3'' ''P''] = [entI1, entI2, entI3]"
  by (simp add: partOf_def entP_def entI1_def entI2_def entI3_def wantedType_def)

lemma chronology_example:
  assumes "parseDate ''2024-01-05'' = Some t5" and "parseDate ''2024-01-01'' = Some t1"
    and "0 < t1" and "t1 < t5"
  shows "\<exists>res. getChronologicalData parseDate ''P'' None storeInterviews = Inr res
           \<and> map tlEntity (timeline res) = [entI3, entI2, entI1]
           \<and> map tlDate (timeline res) = [0, t1, t5]"
proof -
  have "isTyped (loaded storeInterviews) ''project'' ''P''"
    by (simp add: isTyped_def storeInterviews_def entP_def)
  then obtain res where r: "getChronologicalData parseDate ''P'' None storeInterviews = Inr res"
    using getChronologicalData_returns by blast
  have "map tlEntity (timeline res) = sort_key (entityDate parseDate) [entI1, entI2, entI3]"
    using getChronologicalData_Inr(1) [OF r] collectData_example
    by (simp add: storeInterviews_def)
  then have e: "map tlEntity (timeline res) = [entI3, entI2, entI1]"
    using assms by (simp add: entityDate_examples)
  have "map tlDate (timeline res) = [0, t1, t5]"
    unfolding getChronologicalData_Inr(2) [OF r] e using assms by (simp add: entityDate_examples)
  with r e show ?thesis by (intro exI [of _ res] conjI)
qed

text \<open>
  What \<open>getChronologicalData\<close> computes. It returns a result exactly when the project
  exists. Its timeline then holds the entities that \<open>part_of\<close> relations link to the
  project and that have the requested type (one of interview, observation and document
  when none is requested), each with its date, in rising order of date, entities of equal
  date in the order of collection. The date of an entity is zero when it has no
  observation that starts with \<open>Date:\<close>, \<open>Collected on:\<close> or \<open>Created:\<close>; otherwise the first
  such observation decides: its piece between the first and the second colon, trimmed, is
  parsed, and the date is the time value, or zero when the parser fails. For the three
  interviews with \<open>Date: 2024-01-05\<close>, \<open>Date: 2024-01-01\<close> and no date, the order is: the
  undated one, 2024-01-01, 2024-01-05, whenever the parser puts the two dates after the
  epoch and in their calendar order.
\<close>

lemma chronological_timeline:
  "((\<exists>r. getChronologicalData parseDate p dt st = Inr r) \<longleftrightarrow> isTyped (loaded st) ''project'' p)
   \<and> (getChronologicalData parseDate p dt st = Inr res \<longrightarrow>
        map tlEntity (timeline res)
          = sort_key (entityDate parseDate)
              (collectData p dt (entities (loaded st)) (relations (loaded st)))
        \<and> map tlDate (timeline res) = map (entityDate parseDate) (map tlEntity (timeline res))
        \<and> sorted (map tlDate (timeline res)))
   \<and> map name (collectData p dt (entities (loaded st)) (relations (loaded st)))
        = filter (\<lambda>n. \<exists>e \<in> set (entities (loaded st)). name e = n \<and> wantedType dt (entityType e))
            (map from_r (filter (\<lambda>r. relationType r = ''part_of'' \<and> to_r r = p)
               (relations (loaded st))))
   \<and> (wantedType None t \<longleftrightarrow> t \<in> {''interview'', ''observation'', ''document''})
   \<and> (d \<noteq> [] \<longrightarrow> (wantedType (Some d) t \<longleftrightarrow> t = d))
   \<and> (find isDateObservation (observations e) = None \<longrightarrow> entityDate parseDate e = 0)
   \<and> (find isDateObservation (observations e) = Some ob \<longrightarrow>
        (\<exists>a piece rest. split_on CHR '':'' ob = a # piece # rest
           \<and> entityDate parseDate e = (case parseDate (trim piece) of Some t \<Rightarrow> t | None \<Rightarrow> 0)))
   \<and> (parseDate ''2024-01-05'' = Some t5 \<and> parseDate ''2024-01-01'' = Some t1
        \<and> 0 < t1 \<and> t1 < t5 \<longrightarrow>
        (\<exists>r. getChronologicalData parseDate ''P'' None storeInterviews = Inr r
           \<and> map tlEntity (timeline r) = [entI3, entI2, entI1]
           \<and> map tlDate (timeline r) = [0, t1, t5]))"
  using getChronologicalData_returns [of parseDate p dt st]
    getChronologicalData_Inr [of parseDate p dt st res]
    collectData_names [of p dt "entities (loaded st)" "relations (loaded st)"]
    wantedType_cases [of t d] entityDate_cases [of e parseDate ob]
    chronology_example [of parseDate t5 t1]
  by (intro conjI impI) (simp_all only: simp_thms)

lemma sampleParse_examples:
  "sampleParse ''2024-01-05'' = Some 1704412800000"
  "sampleParse ''2024-01-01'' = Some 1704067200000"
  by (simp_all add: sampleParse_def)

lemma chronological_timeline_example:
  "isTyped (loaded storeInterviews) ''project'' ''P''
   \<and> (\<exists>r. getChronologicalData sampleParse ''P'' None storeInterviews = Inr r
         \<and> map tlEntity (timeline r) = [entI3, entI2, entI1]
         \<and> map tlDate (timeline r) = [0, 1704067200000, 1704412800000])
   \<and> find isDateObservation (observations entI2) = Some ''Date: 2024-01-01''
   \<and> entityDate sampleParse entI2 = 1704067200000
   \<and> find isDateObservation (observations entI3) = None
   \<and> entityDate sampleParse entI3 = 0"
proof -
  note t = chronological_timeline [of sampleParse "''P''" None storeInterviews _
      "''interview''" "''interview''" entI3 _ 1704412800000 1704067200000]
  have p: "isTyped (loaded storeInterviews) ''project'' ''P''"
    by (simp add: isTyped_def storeInterviews_def entP_def)
  have o: "(0::int) < 1704067200000 \<and> (1704067200000::int) < 1704412800000" by simp
  from t sampleParse_examples o
  have 1: "\<exists>r. getChronologicalData sampleParse ''P'' None storeInterviews = Inr r
         \<and> map tlEntity (timeline r) = [entI3, entI2, entI1]
         \<and> map tlDate (timeline r) = [0, 1704067200000, 1704412800000]"
    by blast
  have f3: "find isDateObservation (observations entI3) = None"
    by (simp add: entI3_def date_observation_examples)
  with t have 3: "entityDate sampleParse entI3 = 0" by blast
  have f2: "find isDateObservation (observations entI2) = Some ''Date: 2024-01-01''"
    by (simp add: entI2_def date_observation_examples)
  have 2: "entityDate sampleParse entI2 = 1704067200000"
    using entityDate_examples(2) [of sampleParse 1704067200000] sampleParse_examples(2) by simp
  from p 1 f2 2 f3 3 show ?thesis by (intro conjI)
qed

section \<open>A date with a time of day\<close>

lemma timestamp_pieces:
  "split_on CHR '':'' ''Created: 2024-01-05T10:30:00Z''
     = [''Created'', '' 2024-01-05T10'', ''30'', ''00Z'']"
  "trim '' 2024-01-05T10'' = ''2024-01-05T10''"
  "isDateObservation ''Created: 2024-01-05T10:30:00Z''"
  by (simp_all add: trim_def isSpace_def isDateObservation_def startsWith_def)

lemma entityDate_timestamp:
  "entityDate parseDate entI4
     = (case parseDate ''2024-01-05T10'' of Some t \<Rightarrow> t | None \<Rightarrow> 0)"
  by (simp add: entityDate_def entI4_def timestamp_pieces)

lemma sampleParse_timestamp:
  "sampleParse ''2024-01-05T10:30:00Z'' = Some 1704450600000"
  "sampleParse ''2024-01-05T10'' = None"
  by (simp_all add: sampleParse_def)

lemma collectData_timed:
  "collectData ''P'' None [entP, entI2, entI4] [partOf ''I2'' ''P'', partOf ''I4'' ''P'']
     = [entI2, entI4]"
  by (simp add: partOf_def entP_def entI2_def entI4_def wantedType_def)

text \<open>
  Claim C7. The claim holds where the text after the prefix holds no further colon (lemma
  \<open>chronological_timeline\<close>). It fails for an observation whose date has a time of day:
  \<open>getChronologicalData\<close> parses the piece between the first and the second colon,
  \<open>2024-01-05T10\<close> for \<open>Created: 2024-01-05T10:30:00Z\<close>, which is no date, and gives the
  entity the date zero although the parser reads the date of the observation; in the
  timeline the interview of 5 January then stands before the one of 1 January.
\<close>

theorem timestamp_observation_dated_zero:
  "find isDateObservation (observations entI4) = Some ''Created: 2024-01-05T10:30:00Z''
   \<and> sampleParse ''2024-01-05T10:30:00Z'' = Some 1704450600000
   \<and> split_on CHR '':'' ''Created: 2024-01-05T10:30:00Z''
       = [''Created'', '' 2024-01-05T10'', ''30'', ''00Z'']
   \<and> sampleParse ''2024-01-05T10'' = None
   \<and> entityDate sampleParse entI4 = 0
   \<and> entityDate sampleParse entI2 = 1704067200000
   \<and> (\<exists>r. getChronologicalData sampleParse ''P'' None storeTimed = Inr r
         \<and> map tlEntity (timeline r) = [entI4, entI2]
         \<and> map tlDate (timeline r) = [0, 1704067200000])"
proof -
  have f: "find isDateObservation (observations entI4) = Some ''Created: 2024-01-05T10:30:00Z''"
    by (simp add: entI4_def timestamp_pieces)
  have d4: "entityDate sampleParse entI4 = 0"
    by (simp add: entityDate_timestamp sampleParse_timestamp)
  have d2: "entityDate sampleParse entI2 = 1704067200000"
    using entityDate_examples(2) [of sampleParse 1704067200000] sampleParse_examples(2) by simp
  have "isTyped (loaded storeTimed) ''project'' ''P''"
    by (simp add: isTyped_def storeTimed_def entP_def)
  then obtain r where r: "getChronologicalData sampleParse ''P'' None storeTimed = Inr r"
    using getChronologicalData_returns by blast
  have "map tlEntity (timeline r) = sort_key (entityDate sampleParse) [entI2, entI4]"
    using getChronologicalData_Inr(1) [OF r] collectData_timed
    by (simp add: storeTimed_def)
  then have e: "map tlEntity (timeline r) = [entI4, entI2]"
    by (simp add: d2 d4)
  have "map tlDate (timeline r) = [0, 1704067200000]"
    unfolding getChronologicalData_Inr(2) [OF r] e by (simp add: d2 d4)
  with r e have "\<exists>r. getChronologicalData sampleParse ''P'' None storeTimed = Inr r
         \<and> map tlEntity (timeline r) = [entI4, entI2]
         \<and> map tlDate (timeline r) = [0, 1704067200000]"
    by (intro exI [of _ r] conjI)
  with f d4 d2 sampleParse_timestamp timestamp_pieces(1) show ?thesis by (intro conjI)
qed

section \<open>Deleting a name that only relations bear\<close>

text \<open>
  Claim C3 as stated fails for a name that matches no entity and is an endpoint of a
  relation: after \<open>setEntityStatus\<close> on the empty store, deleting the name \<open>X\<close>, which no
  entity bears, removes the \<open>has_status\<close> relation of \<open>X\<close>.
\<close>

theorem deleteEntities_unknown_name_counterexample:
  "reachable (snd (setEntityStatus ''X'' ''draft'' Absent))
   \<and> ''X'' \<notin> set (entityNames (loaded (snd (setEntityStatus ''X'' ''draft'' Absent))))
   \<and> relations (loaded (snd (setEntityStatus ''X'' ''draft'' Absent)))
       = [\<lparr>from_r = ''X'', to_r = ''status:draft'', relationType = ''has_status''\<rparr>]
   \<and> relations (loaded (deleteEntities [''X''] (snd (setEntityStatus ''X'' ''draft'' Absent)))) = []
   \<and> loaded (deleteEntities [''X''] (snd (setEntityStatus ''X'' ''draft'' Absent)))
       \<noteq> loaded (snd (setEntityStatus ''X'' ''draft'' Absent))"
proof -
  have r: "reachable (snd (setEntityStatus ''X'' ''draft'' Absent))"
    by (intro reachable.intros)
  have d: "relations (loaded (deleteEntities [''X''] (snd (setEntityStatus ''X'' ''draft'' Absent)))) = []"
    unfolding deleteEntities_relations setEntityStatus_dangling by simp
  show ?thesis
    using r d by (auto simp: setEntityStatus_dangling entityNames_def)
qed

end
